theory Spec2Isabelle
  imports Complex_Main
begin

section \<open>Errors\<close>

text \<open>
  The exceptions the modelled Python code can raise. A function that may raise returns
  \<open>error + 'a\<close>, with \<open>Inl\<close> carrying the exception.
\<close>

datatype error =
  AssertionError | ValueError | AttributeError | IndexError | TypeError | ZeroDivisionError

section \<open>Sample buffer (ppo.py)\<close>

text \<open>
  \<^verbatim>\<open>Sample = namedtuple('Sample', 'states, rewards, dones, probs, values, actions')\<close>
  Each field is a Python list that grows by \<^verbatim>\<open>append\<close>. The element types are
  tensors and arrays of the numerical runtime and stay abstract.
\<close>

record ('s, 'r, 'd, 'p, 'v, 'a) Sample =
  states :: "'s list"
  rewards :: "'r list"
  dones :: "'d list"
  probs :: "'p list"
  vals :: "'v list"
  actions :: "'a list"

text \<open>\<^verbatim>\<open>create_new_sample()\<close>: six empty lists.\<close>

definition create_new_sample :: "('s, 'r, 'd, 'p, 'v, 'a) Sample" where
  "create_new_sample =
     \<lparr>states = [], rewards = [], dones = [], probs = [], vals = [], actions = []\<rparr>"

text \<open>
  \<^verbatim>\<open>append_to_sample(sample, states, rewards, dones, actions, probs, values)\<close>.
  The reward and the done flag are appended only when a state is already stored;
  \<^verbatim>\<open>states.cpu()\<close> moves the tensor between devices and does not change its value.
\<close>

definition append_to_sample ::
  "('s, 'r, 'd, 'p, 'v, 'a) Sample \<Rightarrow> 's \<Rightarrow> 'r \<Rightarrow> 'd \<Rightarrow> 'a \<Rightarrow> 'p \<Rightarrow> 'v
     \<Rightarrow> ('s, 'r, 'd, 'p, 'v, 'a) Sample" where
  "append_to_sample sample st rw dn ac pr vl =
     (let sample1 =
        (if length (states sample) \<noteq> 0
         then sample\<lparr>rewards := rewards sample @ [rw], dones := dones sample @ [dn]\<rparr>
         else sample)
      in sample1\<lparr>states := states sample1 @ [st],
                 probs := probs sample1 @ [pr],
                 vals := vals sample1 @ [vl],
                 actions := actions sample1 @ [ac]\<rparr>)"

text \<open>One environment step's arguments to \<^verbatim>\<open>append_to_sample\<close>, in the source's order.\<close>

type_synonym ('s, 'r, 'd, 'p, 'v, 'a) step_args = "'s \<times> 'r \<times> 'd \<times> 'a \<times> 'p \<times> 'v"

fun append_step ::
  "('s, 'r, 'd, 'p, 'v, 'a) Sample \<Rightarrow> ('s, 'r, 'd, 'p, 'v, 'a) step_args
     \<Rightarrow> ('s, 'r, 'd, 'p, 'v, 'a) Sample" where
  "append_step sample (st, rw, dn, ac, pr, vl) = append_to_sample sample st rw dn ac pr vl"

text \<open>A sequence of calls on a fresh sample buffer.\<close>

definition append_all ::
  "('s, 'r, 'd, 'p, 'v, 'a) step_args list \<Rightarrow> ('s, 'r, 'd, 'p, 'v, 'a) Sample" where
  "append_all calls = foldl append_step create_new_sample calls"

section \<open>PPO loss (ppo.py, \<^verbatim>\<open>PPO._get_ppo_loss\<close>)\<close>

text \<open>
  The hyperparameters of \<^verbatim>\<open>PPO.__init__\<close> that the loss reads. \<^verbatim>\<open>constraint\<close> is
  \<^verbatim>\<open>None\<close>, \<^verbatim>\<open>'clip'\<close> or \<^verbatim>\<open>'clip_mod'\<close>; \<^verbatim>\<open>clip_decay\<close> is \<^verbatim>\<open>None\<close> or a
  scheduler, of which only the current \<^verbatim>\<open>value\<close> is read. Tensor elements are modelled as
  real numbers: the arithmetic is exact, rounding is not modelled.
\<close>

datatype constraint = Clip | ClipMod

record PPO =
  policy_clip :: real
  value_clip :: real
  value_loss_scale :: real
  entropy_bonus :: real
  constraint :: "constraint option"
  clip_decay :: "real option"

text \<open>\<^verbatim>\<open>self.clip_decay.value if self.clip_decay is not None else 1\<close>\<close>

definition clip_mult :: "PPO \<Rightarrow> real" where
  "clip_mult ppo = (case clip_decay ppo of Some v \<Rightarrow> v | None \<Rightarrow> 1)"

text \<open>
  \<^verbatim>\<open>Tensor.clamp(min, max)\<close> of the tensor library, on one element: the lower bound is
  applied first, then the upper bound.
\<close>

definition tensor_clamp :: "real \<Rightarrow> real \<Rightarrow> real \<Rightarrow> real" where
  "tensor_clamp x lo hi = min (max x lo) hi"

text \<open>
  \<^verbatim>\<open>F.smooth_l1_loss(input, target, reduce=False)\<close> of the tensor library, on one element:
  quadratic below an absolute error of 1, linear from there on.
\<close>

definition smooth_l1_loss :: "real \<Rightarrow> real \<Rightarrow> real" where
  "smooth_l1_loss x y = (if \<bar>x - y\<bar> < 1 then 0.5 * (x - y)\<^sup>2 else \<bar>x - y\<bar> - 0.5)"

text \<open>
  One element of a minibatch, after the \<^verbatim>\<open>squeeze\<close>: the log-probabilities
  \<^verbatim>\<open>pd.logp(actions, probs)\<close> and \<^verbatim>\<open>pd.logp(actions, probs_old)\<close> of the action (the
  probability distribution is an external collaborator, so its outputs are inputs here),
  the new and old state values, the advantage, the return and \<^verbatim>\<open>pd.entropy(probs)\<close>.
\<close>

record batch_elem =
  logp :: real
  logp_old :: real
  value_new :: real
  value_old :: real
  advantage :: real
  return :: real
  entropy :: real

text \<open>\<^verbatim>\<open>ratio = logp - logp_old\<close>\<close>

definition ratio :: "batch_elem \<Rightarrow> real" where
  "ratio e = logp e - logp_old e"

text \<open>
  The policy loss \<^verbatim>\<open>loss_clip\<close>: clipped under \<^verbatim>\<open>'clip'\<close> and \<^verbatim>\<open>'clip_mod'\<close>, unclipped
  under \<^verbatim>\<open>None\<close>.
\<close>

definition loss_clip :: "PPO \<Rightarrow> batch_elem \<Rightarrow> real" where
  "loss_clip ppo e =
     (let policy_clip = policy_clip ppo * clip_mult ppo;
          unclipped_policy_loss = ratio e * advantage e
      in if constraint ppo = Some Clip \<or> constraint ppo = Some ClipMod
         then (let clipped_ratio = tensor_clamp (ratio e) (- policy_clip) policy_clip;
                   clipped_policy_loss = clipped_ratio * advantage e
               in - min unclipped_policy_loss clipped_policy_loss)
         else - unclipped_policy_loss)"

text \<open>The value loss \<^verbatim>\<open>loss_value\<close>.\<close>

definition loss_value :: "PPO \<Rightarrow> batch_elem \<Rightarrow> real" where
  "loss_value ppo e =
     (let value_clip = value_clip ppo * clip_mult ppo;
          v_pred_clipped =
            value_old e + tensor_clamp (value_new e - value_old e) (- value_clip) value_clip;
          vf_clip_loss = smooth_l1_loss v_pred_clipped (return e);
          vf_nonclip_loss = smooth_l1_loss (value_new e) (return e)
      in value_loss_scale ppo * 0.5 * max vf_nonclip_loss vf_clip_loss)"

text \<open>The entropy bonus \<^verbatim>\<open>loss_ent = -self.entropy_bonus * entropy\<close>.\<close>

definition loss_ent :: "PPO \<Rightarrow> batch_elem \<Rightarrow> real" where
  "loss_ent ppo e = - entropy_bonus ppo * entropy e"

text \<open>\<^verbatim>\<open>Tensor.mean()\<close> over a one-dimensional tensor.\<close>

definition mean :: "real list \<Rightarrow> real" where
  "mean xs = sum_list xs / real (length xs)"

text \<open>
  \<^verbatim>\<open>total_loss = loss_clip.mean() + loss_value.mean() + loss_ent.mean()\<close>, the three
  losses being computed elementwise over the minibatch.
\<close>

definition total_loss :: "PPO \<Rightarrow> batch_elem list \<Rightarrow> real" where
  "total_loss ppo batch =
     mean (map (loss_clip ppo) batch) + mean (map (loss_value ppo) batch)
       + mean (map (loss_ent ppo) batch)"

text \<open>A minibatch element and a configuration used to evaluate the loss.\<close>

definition elem_far :: batch_elem where
  "elem_far = \<lparr>logp = 1, logp_old = 0, value_new = 2, value_old = 2, advantage = 1,
               return = 0, entropy = 0\<rparr>"

definition ppo_default :: PPO where
  "ppo_default = \<lparr>policy_clip = 0.1, value_clip = 0.1, value_loss_scale = 1,
                  entropy_bonus = 0.01, constraint = Some Clip, clip_decay = None\<rparr>"

section \<open>The finiteness assertion and the update loop (ppo.py, \<^verbatim>\<open>PPO._ppo_update\<close>)\<close>

text \<open>
  A floating-point scalar as the tensor runtime returns it: a finite number, an infinity
  or not-a-number. \<^verbatim>\<open>np.isnan\<close> and \<^verbatim>\<open>np.isinf\<close> classify it.
\<close>

datatype float = Finite real | PosInf | NegInf | NaN

fun isnan :: "float \<Rightarrow> bool" where
  "isnan NaN = True"
| "isnan _ = False"

fun isinf :: "float \<Rightarrow> bool" where
  "isinf PosInf = True"
| "isinf NegInf = True"
| "isinf _ = False"

text \<open>
  The end of \<^verbatim>\<open>_get_ppo_loss\<close>, from the assertion on: the arguments are the scalars
  \<^verbatim>\<open>total_loss.data[0]\<close> and \<^verbatim>\<open>kl\<close> as the floating-point runtime computed them. The
  assertion raises before anything is returned.
\<close>

definition get_ppo_loss :: "float \<Rightarrow> float \<Rightarrow> error + float \<times> float" where
  "get_ppo_loss tloss kl =
     (if \<not> isnan tloss \<and> \<not> isinf tloss then Inr (tloss, kl) else Inl AssertionError)"

text \<open>
  The mutable part of the agent during \<^verbatim>\<open>_ppo_update\<close>: the model parameters together
  with the optimizer's state, and a count of the \<^verbatim>\<open>optimizer.step()\<close> calls made so far.
\<close>

record 'w trainer =
  weights :: 'w
  opt_steps :: nat

text \<open>
  The body of the inner loop for one minibatch. \<open>forward w idx\<close> stands for
  \<^verbatim>\<open>self.model(st)\<close> followed by the loss arithmetic of \<^verbatim>\<open>_get_ppo_loss\<close> on the rows
  \<open>idx\<close>, giving \<^verbatim>\<open>total_loss\<close> and \<^verbatim>\<open>kl\<close>; \<open>optimize w idx\<close> stands for
  \<^verbatim>\<open>loss.backward(); clip_grad_norm(...); optimizer.step(); optimizer.zero_grad()\<close>.
  An exception leaves the loop with the state it was raised in: \<open>Inl (e, s)\<close>.
\<close>

definition minibatch_step ::
  "('w \<Rightarrow> nat list \<Rightarrow> float \<times> float) \<Rightarrow> ('w \<Rightarrow> nat list \<Rightarrow> 'w) \<Rightarrow> 'w trainer \<Rightarrow> nat list
     \<Rightarrow> error \<times> 'w trainer + 'w trainer" where
  "minibatch_step forward optimize s batch_idx =
     (case forward (weights s) batch_idx of (tloss, kl) \<Rightarrow>
        (case get_ppo_loss tloss kl of
           Inl e \<Rightarrow> Inl (e, s)
         | Inr (loss, kl') \<Rightarrow>
             Inr (s\<lparr>weights := optimize (weights s) batch_idx,
                    opt_steps := Suc (opt_steps s)\<rparr>)))"

fun run_batches ::
  "('w \<Rightarrow> nat list \<Rightarrow> float \<times> float) \<Rightarrow> ('w \<Rightarrow> nat list \<Rightarrow> 'w) \<Rightarrow> 'w trainer
     \<Rightarrow> nat list list \<Rightarrow> error \<times> 'w trainer + 'w trainer" where
  "run_batches forward optimize s [] = Inr s"
| "run_batches forward optimize s (b # bs) =
     (case minibatch_step forward optimize s b of
        Inl r \<Rightarrow> Inl r
      | Inr s' \<Rightarrow> run_batches forward optimize s' bs)"

text \<open>
  \<^verbatim>\<open>rand_idx[loader_iter * batch_size: (loader_iter + 1) * batch_size]\<close>: a slice with
  bounds that are not negative, cut at the end of the list.
\<close>

definition batch_slice :: "nat list \<Rightarrow> nat \<Rightarrow> nat \<Rightarrow> nat list" where
  "batch_slice rand_idx loader_iter batch_size =
     take ((loader_iter + 1) * batch_size - loader_iter * batch_size)
       (drop (loader_iter * batch_size) rand_idx)"

text \<open>
  Python's \<^verbatim>\<open>a // b\<close> on integers that are not negative: a \<^verbatim>\<open>ZeroDivisionError\<close> when
  the divisor is 0.
\<close>

definition floordiv :: "nat \<Rightarrow> nat \<Rightarrow> error + nat" where
  "floordiv a b = (if b = 0 then Inl ZeroDivisionError else Inr (a div b))"

text \<open>\<^verbatim>\<open>batches = max(1, self.num_actors * self.horizon // self.batch_size)\<close>\<close>

definition batch_count :: "nat \<Rightarrow> nat \<Rightarrow> nat \<Rightarrow> error + nat" where
  "batch_count num_actors horizon batch_size =
     (case floordiv (num_actors * horizon) batch_size of
        Inl e \<Rightarrow> Inl e
      | Inr q \<Rightarrow> Inr (max 1 q))"

text \<open>
  The minibatches of \<^verbatim>\<open>ppo_iters\<close> epochs of \<^verbatim>\<open>batches\<close> minibatches each, in the
  order in which the two nested loops visit them. \<open>randperm i\<close> is the permutation that
  \<^verbatim>\<open>torch.randperm\<close> returns in epoch \<open>i\<close>.
\<close>

definition minibatches :: "(nat \<Rightarrow> nat list) \<Rightarrow> nat \<Rightarrow> nat \<Rightarrow> nat \<Rightarrow> nat list list" where
  "minibatches randperm ppo_iters batches batch_size =
     concat (map (\<lambda>ppo_iter.
               map (\<lambda>loader_iter. batch_slice (randperm ppo_iter) loader_iter batch_size)
                 [0..<batches])
             [0..<ppo_iters])"

text \<open>
  \<^verbatim>\<open>_ppo_update\<close>: the number of minibatches is computed before the loops, so a batch
  size of 0 raises before the first minibatch, with the state the update was called in;
  then the loops run.
\<close>

definition ppo_update ::
  "('w \<Rightarrow> nat list \<Rightarrow> float \<times> float) \<Rightarrow> ('w \<Rightarrow> nat list \<Rightarrow> 'w) \<Rightarrow> (nat \<Rightarrow> nat list)
     \<Rightarrow> nat \<Rightarrow> nat \<Rightarrow> nat \<Rightarrow> nat \<Rightarrow> 'w trainer \<Rightarrow> error \<times> 'w trainer + 'w trainer" where
  "ppo_update forward optimize randperm ppo_iters num_actors horizon batch_size s =
     (case batch_count num_actors horizon batch_size of
        Inl e \<Rightarrow> Inl (e, s)
      | Inr batches \<Rightarrow>
          run_batches forward optimize s
            (minibatches randperm ppo_iters batches batch_size))"

text \<open>
  A forward pass whose loss blows up once the parameters have been stepped twice, and an
  optimizer that counts its steps in the parameters.
\<close>

definition forward_blowup :: "nat \<Rightarrow> nat list \<Rightarrow> float \<times> float" where
  "forward_blowup w idx = (if w = 2 then (NaN, Finite 0) else (Finite 1, Finite 0))"

definition optimize_count :: "nat \<Rightarrow> nat list \<Rightarrow> nat" where
  "optimize_count w idx = Suc w"

definition forward_fine :: "nat \<Rightarrow> nat list \<Rightarrow> float \<times> float" where
  "forward_fine w idx = (Finite 1, Finite 0)"

section \<open>Advantages and returns (ppo.py, \<^verbatim>\<open>PPO._process_rewards\<close>)\<close>

text \<open>
  An array of shape (time, actor) is a list of rows, one row per time step and one element
  per actor. Rewards and done flags have one row per transition; the value array has one
  more row, the value estimate of the trailing state. Elements are real numbers.
\<close>

type_synonym 'a array2 = "'a list list"

text \<open>
  Modelled from the spec: \<^verbatim>\<open>calc_returns\<close> of \<^verbatim>\<open>common/gae.py\<close>, which is imported by
  \<^verbatim>\<open>ppo.py\<close> and is not among the sources. The spec gives
  \<^verbatim>\<open>R_t = reward_t + gamma * R_{t+1} * (1 - done_t)\<close>, computed backward from the last
  step, with the trailing value estimate as the bootstrap at the horizon boundary.
  \<open>ret_at\<close> is \<^verbatim>\<open>R_t\<close> of actor \<open>a\<close>.
\<close>

function ret_at ::
  "real array2 \<Rightarrow> real array2 \<Rightarrow> bool array2 \<Rightarrow> real \<Rightarrow> nat \<Rightarrow> nat \<Rightarrow> real" where
  "ret_at rws vls dns gamma a t =
     (if t < length rws
      then rws ! t ! a
             + gamma * ret_at rws vls dns gamma a (Suc t)
                 * (1 - of_bool (dns ! t ! a))
      else last vls ! a)"
  by pat_completeness auto
termination
  by (relation "measure (\<lambda>(rws, vls, dns, gamma, a, t). length rws - t)") auto

declare ret_at.simps [simp del]

definition calc_returns ::
  "real array2 \<Rightarrow> real array2 \<Rightarrow> bool array2 \<Rightarrow> real \<Rightarrow> real array2" where
  "calc_returns rws vls dns gamma =
     map (\<lambda>t. map (\<lambda>a. ret_at rws vls dns gamma a t)
                 [0..<length (rws ! t)])
       [0..<length rws]"

text \<open>
  Modelled from the spec: \<^verbatim>\<open>calc_advantages\<close> of \<^verbatim>\<open>common/gae.py\<close>, not among the
  sources either. The spec gives
  \<^verbatim>\<open>delta_t = reward_t + gamma * V_{t+1} * (1 - done_t) - V_t\<close> and
  \<^verbatim>\<open>A_t = delta_t + gamma * lambda * A_{t+1} * (1 - done_t)\<close>, computed backward; at the
  last step the advantage is the one-step error, so the advantage beyond the horizon is 0.
  \<open>adv_at\<close> is \<^verbatim>\<open>A_t\<close> of actor \<open>a\<close>.
\<close>

function adv_at ::
  "real array2 \<Rightarrow> real array2 \<Rightarrow> bool array2 \<Rightarrow> real \<Rightarrow> real \<Rightarrow> nat \<Rightarrow> nat \<Rightarrow> real" where
  "adv_at rws vls dns gamma lam a t =
     (if t < length rws
      then (rws ! t ! a
              + gamma * (vls ! Suc t ! a) * (1 - of_bool (dns ! t ! a))
              - vls ! t ! a)
             + gamma * lam * adv_at rws vls dns gamma lam a (Suc t)
                 * (1 - of_bool (dns ! t ! a))
      else 0)"
  by pat_completeness auto
termination
  by (relation "measure (\<lambda>(rws, vls, dns, gamma, lam, a, t). length rws - t)")
     auto

declare adv_at.simps [simp del]

definition calc_advantages ::
  "real array2 \<Rightarrow> real array2 \<Rightarrow> bool array2 \<Rightarrow> real \<Rightarrow> real \<Rightarrow> real array2" where
  "calc_advantages rws vls dns gamma lam =
     map (\<lambda>t. map (\<lambda>a. adv_at rws vls dns gamma lam a t)
                 [0..<length (rws ! t)])
       [0..<length rws]"

text \<open>\<^verbatim>\<open>ndarray.mean()\<close> and \<^verbatim>\<open>ndarray.std()\<close> over all elements of an array.\<close>

definition array_mean :: "real array2 \<Rightarrow> real" where
  "array_mean xs = mean (concat xs)"

definition array_std :: "real array2 \<Rightarrow> real" where
  "array_std xs = sqrt (mean (map (\<lambda>x. (x - array_mean xs)\<^sup>2) (concat xs)))"

text \<open>
  \<^verbatim>\<open>_process_rewards(rewards, values, dones, reward_discount, advantage_discount,
  reward_scale)\<close>: the rws are scaled, returns and advantages are computed from the
  scaled rws, and the advantages are standardised over the whole batch. The result is
  \<^verbatim>\<open>(norm_rewards, np_returns, np_advantages)\<close>.
\<close>

definition process_rewards ::
  "real array2 \<Rightarrow> real array2 \<Rightarrow> bool array2 \<Rightarrow> real \<Rightarrow> real \<Rightarrow> real
     \<Rightarrow> real array2 \<times> real array2 \<times> real array2" where
  "process_rewards rws vls dns reward_discount advantage_discount reward_scale =
     (let norm_rewards = map (map (\<lambda>r. reward_scale * r)) rws;
          np_returns = calc_returns norm_rewards vls dns reward_discount;
          np_advantages =
            calc_advantages norm_rewards vls dns reward_discount advantage_discount;
          np_advantages' =
            map (map (\<lambda>x. (x - array_mean np_advantages)
                             / max (array_std np_advantages) (1 / 100000)))
              np_advantages
      in (norm_rewards, np_returns, np_advantages'))"

section \<open>World-model training: the discriminator fake step (mppo.py, \<^verbatim>\<open>MPPO._train_world\<close>)\<close>

text \<open>
  The networks are external collaborators and enter as functions:
  \<^item> \<open>model_state\<close> is \<^verbatim>\<open>self.model(states[0], hidden_code_input=False)\<close>, returning
    \<^verbatim>\<open>(ac_out.hidden_code, ac_out.probs)\<close>;
  \<^item> \<open>model_code\<close> is \<^verbatim>\<open>self.model(code, hidden_code_input=True)\<close>, returning the same
    pair;
  \<^item> \<open>pd_sample i\<close> is the \<^verbatim>\<open>self.model.pd.sample\<close> call of unroll step \<open>i\<close> (the draw
    depends on the random generator's state at that step);
  \<^item> \<open>world_gen\<close> is the generator, \<open>world_disc\<close> the discriminator; \<^verbatim>\<open>detach()\<close>
    does not change a tensor's value.
  Python is dynamically typed: the replayed action tensor \<^verbatim>\<open>actions\<close> and the sampled
  \<^verbatim>\<open>cur_actions\<close> are values of the one type \<open>'act\<close>.
\<close>

record ('st, 'code, 'probs, 'act, 'rew, 'done, 'score) world_nets =
  model_state :: "'st \<Rightarrow> 'code \<times> 'probs"
  model_code :: "'code \<Rightarrow> 'code \<times> 'probs"
  pd_sample :: "nat \<Rightarrow> 'probs \<Rightarrow> 'act"
  world_gen :: "'code \<Rightarrow> 'act \<Rightarrow> 'code \<times> 'rew \<times> 'done"
  world_disc :: "'code \<Rightarrow> 'code \<Rightarrow> 'act \<Rightarrow> 'rew \<Rightarrow> 'done \<Rightarrow> 'score"

text \<open>The five lists the loop appends to.\<close>

record ('code, 'act, 'rew, 'done, 'score) fake_lists =
  disc_fake :: "'score list"
  all_gen_hidden_codes :: "'code list"
  all_gen_actions :: "'act list"
  all_gen_rewards :: "'rew list"
  all_gen_dones :: "'done list"

definition fake_lists_empty :: "('code, 'act, 'rew, 'done, 'score) fake_lists" where
  "fake_lists_empty =
     \<lparr>disc_fake = [], all_gen_hidden_codes = [], all_gen_actions = [],
      all_gen_rewards = [], all_gen_dones = []\<rparr>"

text \<open>
  \<^verbatim>\<open>xs[-1]\<close>: the last element, \<^verbatim>\<open>IndexError\<close> on an empty list.
\<close>

definition last_elem :: "'a list \<Rightarrow> error + 'a" where
  "last_elem xs = (case rev xs of [] \<Rightarrow> Inl IndexError | x # _ \<Rightarrow> Inr x)"

text \<open>
  The body of \<^verbatim>\<open>for i in range(self.world_train_horizon)\<close>. \<open>states0\<close> is
  \<^verbatim>\<open>states[0]\<close>, \<open>replay_actions\<close> is the variable \<^verbatim>\<open>actions\<close> of the enclosing
  loop, the action tensor of the replayed slice. As in the source, the generator is
  called on \<^verbatim>\<open>(cur_code, actions)\<close> and the discriminator on \<^verbatim>\<open>cur_actions\<close>.
\<close>

definition fake_step_body ::
  "('st, 'code, 'probs, 'act, 'rew, 'done, 'score) world_nets \<Rightarrow> 'st \<Rightarrow> 'act \<Rightarrow> nat
     \<Rightarrow> ('code, 'act, 'rew, 'done, 'score) fake_lists
     \<Rightarrow> error + ('code, 'act, 'rew, 'done, 'score) fake_lists" where
  "fake_step_body nets states0 replay_actions i l =
     (case (if i \<noteq> 0
            then (case last_elem (all_gen_hidden_codes l) of
                    Inl e \<Rightarrow> Inl e
                  | Inr c \<Rightarrow> Inr (model_code nets c))
            else Inr (model_state nets states0)) of
        Inl e \<Rightarrow> Inl e
      | Inr (hidden_code, ac_probs) \<Rightarrow>
          (let codes = (if i = 0 then all_gen_hidden_codes l @ [hidden_code]
                        else all_gen_hidden_codes l)
           in case last_elem codes of
                Inl e \<Rightarrow> Inl e
              | Inr cur_code \<Rightarrow>
                  (let cur_actions = pd_sample nets i ac_probs
                   in case world_gen nets cur_code replay_actions of
                        (gen_next_code, gen_rewards, gen_dones) \<Rightarrow>
                          (let d = world_disc nets cur_code gen_next_code cur_actions
                                     gen_rewards gen_dones
                           in Inr \<lparr>disc_fake = disc_fake l @ [d],
                                   all_gen_hidden_codes = codes @ [gen_next_code],
                                   all_gen_actions = all_gen_actions l @ [cur_actions],
                                   all_gen_rewards = all_gen_rewards l @ [gen_rewards],
                                   all_gen_dones = all_gen_dones l @ [gen_dones]\<rparr>))))"

fun fake_steps ::
  "('st, 'code, 'probs, 'act, 'rew, 'done, 'score) world_nets \<Rightarrow> 'st \<Rightarrow> 'act \<Rightarrow> nat list
     \<Rightarrow> ('code, 'act, 'rew, 'done, 'score) fake_lists
     \<Rightarrow> error + ('code, 'act, 'rew, 'done, 'score) fake_lists" where
  "fake_steps nets states0 replay_actions [] l = Inr l"
| "fake_steps nets states0 replay_actions (i # is) l =
     (case fake_step_body nets states0 replay_actions i l of
        Inl e \<Rightarrow> Inl e
      | Inr l' \<Rightarrow> fake_steps nets states0 replay_actions is l')"

text \<open>The whole unroll: the five lists start empty, \<open>i\<close> runs over \<^verbatim>\<open>range(horizon)\<close>.\<close>

definition disc_fake_unroll ::
  "('st, 'code, 'probs, 'act, 'rew, 'done, 'score) world_nets \<Rightarrow> 'st \<Rightarrow> 'act \<Rightarrow> nat
     \<Rightarrow> error + ('code, 'act, 'rew, 'done, 'score) fake_lists" where
  "disc_fake_unroll nets states0 replay_actions world_train_horizon =
     fake_steps nets states0 replay_actions [0..<world_train_horizon] fake_lists_empty"

text \<open>
  Networks over the natural numbers that make the generator's arguments visible in its
  outputs: the policy parameters are the code itself, the sampled action is the policy
  parameter plus one, the generator returns the sum of its arguments as the next code and
  its action argument as the reward.
\<close>

definition nets_visible :: "(nat, nat, nat, nat, nat, nat, nat \<times> nat \<times> nat) world_nets" where
  "nets_visible =
     \<lparr>model_state = (\<lambda>s. (s, s)),
      model_code = (\<lambda>c. (c, c)),
      pd_sample = (\<lambda>i p. p + 1),
      world_gen = (\<lambda>c a. (c + a, a, 0)),
      world_disc = (\<lambda>c c' a r d. (c, c', a))\<rparr>"

section \<open>Replay buffer (mppo.py, \<^verbatim>\<open>ReplayBuffer\<close>)\<close>

subsection \<open>Arrays\<close>

text \<open>
  An \<^verbatim>\<open>ndarray\<close> whose first two axes are time and actor: a list of rows, one per time
  slot, each row a list of cells, one per actor. The actor count \<^verbatim>\<open>shape[1]\<close> is kept
  beside the rows, since an array without rows still has one. A cell is everything the
  array holds at one (time, actor) position; cells stay abstract, so the trailing axes and
  the element type are those of the cell type, and every rollout is taken to have cells of
  the buffer's trailing shape.
\<close>

datatype 'c ndarray = NDArray (shape1: nat) (rows: "'c list list")

definition shape0 :: "'c ndarray \<Rightarrow> nat" where
  "shape0 arr = length (rows arr)"

text \<open>\<^verbatim>\<open>arr.shape[:2]\<close>\<close>

definition shape :: "'c ndarray \<Rightarrow> nat \<times> nat" where
  "shape arr = (shape0 arr, shape1 arr)"

text \<open>Every array is rectangular.\<close>

definition wf_ndarray :: "'c ndarray \<Rightarrow> bool" where
  "wf_ndarray arr = list_all (\<lambda>row. length row = shape1 arr) (rows arr)"

text \<open>\<^verbatim>\<open>np.zeros((n, actors, ...))\<close>\<close>

definition zeros :: "nat \<Rightarrow> nat \<Rightarrow> ('c::zero) ndarray" where
  "zeros n actors = NDArray actors (replicate n (replicate actors 0))"

text \<open>
  Python slices \<^verbatim>\<open>arr[:n]\<close> and \<^verbatim>\<open>arr[n:]\<close> along the time axis, for any integer
  \<^verbatim>\<open>n\<close>: a negative bound counts from the end, and bounds are cut to the array.
\<close>

definition slice_to :: "'c ndarray \<Rightarrow> int \<Rightarrow> 'c ndarray" where
  "slice_to arr n =
     NDArray (shape1 arr)
       (take (if n < 0 then nat (int (shape0 arr) + n) else nat n) (rows arr))"

definition slice_from :: "'c ndarray \<Rightarrow> int \<Rightarrow> 'c ndarray" where
  "slice_from arr n =
     NDArray (shape1 arr)
       (drop (if n < 0 then nat (int (shape0 arr) + n) else nat n) (rows arr))"

text \<open>
  Broadcasting of a source array to \<open>m\<close> rows of \<open>actors\<close> cells, as an assignment
  does it: an axis fits when its length is the target's or 1, and an axis of length 1 is
  repeated. Anything else is a \<^verbatim>\<open>ValueError\<close>.
\<close>

definition broadcast_to :: "nat \<Rightarrow> nat \<Rightarrow> 'c ndarray \<Rightarrow> error + 'c list list" where
  "broadcast_to m actors src =
     (if (shape0 src = m \<or> shape0 src = 1) \<and> (shape1 src = actors \<or> shape1 src = 1)
      then (let rs = (if shape1 src = actors then rows src
                      else map (\<lambda>row. replicate actors (hd row)) (rows src))
            in Inr (if length rs = m then rs else replicate m (hd rs)))
      else Inl ValueError)"

text \<open>
  \<^verbatim>\<open>dst[a: b] = src\<close> for bounds \<open>0 \<le> a \<le> b\<close>: the slice is cut to the rows that
  exist, the source is broadcast to it, and the rows are replaced.
\<close>

definition assign_slice :: "'c ndarray \<Rightarrow> nat \<Rightarrow> nat \<Rightarrow> 'c ndarray \<Rightarrow> error + 'c ndarray" where
  "assign_slice dst a b src =
     (let lo = min a (shape0 dst); hi = max lo (min b (shape0 dst))
      in case broadcast_to (hi - lo) (shape1 dst) src of
           Inl e \<Rightarrow> Inl e
         | Inr new \<Rightarrow> Inr (NDArray (shape1 dst) (take lo (rows dst) @ new @ drop hi (rows dst))))"

text \<open>\<^verbatim>\<open>arr[rand_h: rand_h + horizon, rand_r]\<close>: a window of one actor's cells.\<close>

definition get_window :: "'c ndarray \<Rightarrow> nat \<Rightarrow> nat \<Rightarrow> nat \<Rightarrow> 'c list" where
  "get_window arr rand_h horizon rand_r =
     map (\<lambda>row. row ! rand_r) (take horizon (drop rand_h (rows arr)))"

text \<open>
  \<^verbatim>\<open>dst[:, ri] = window\<close>: the window is broadcast to the number of rows of \<open>dst\<close>
  and written into column \<open>ri\<close>.
\<close>

definition set_column :: "'c ndarray \<Rightarrow> nat \<Rightarrow> 'c list \<Rightarrow> error + 'c ndarray" where
  "set_column dst ri window =
     (if length window = shape0 dst
      then Inr (NDArray (shape1 dst) (map2 (\<lambda>row v. row[ri := v]) (rows dst) window))
      else if length window = 1
      then Inr (NDArray (shape1 dst) (map (\<lambda>row. row[ri := hd window]) (rows dst)))
      else Inl ValueError)"

subsection \<open>The buffer\<close>

text \<open>
  The four arrays \<^verbatim>\<open>self.states\<close>, \<^verbatim>\<open>self.actions\<close>, \<^verbatim>\<open>self.rewards\<close> and
  \<^verbatim>\<open>self.dones\<close> are \<^verbatim>\<open>None\<close> until the first push allocates all four in one place;
  no other statement assigns to the attributes. They are kept as one optional group.
\<close>

record ('s, 'a, 'r, 'd) arrays =
  states_arr :: "'s ndarray"
  actions_arr :: "'a ndarray"
  rewards_arr :: "'r ndarray"
  dones_arr :: "'d ndarray"

record ('s, 'a, 'r, 'd) ReplayBuffer =
  capacity :: nat
  storage :: "('s, 'a, 'r, 'd) arrays option"
  index :: nat
  full_loop :: bool

text \<open>\<^verbatim>\<open>ReplayBuffer(capacity)\<close>\<close>

definition ReplayBuffer_init :: "nat \<Rightarrow> ('s, 'a, 'r, 'd) ReplayBuffer" where
  "ReplayBuffer_init cap = \<lparr>capacity = cap, storage = None, index = 0, full_loop = False\<rparr>"

definition bind_err :: "error + 'x \<Rightarrow> ('x \<Rightarrow> error + 'y) \<Rightarrow> error + 'y" where
  "bind_err m f = (case m of Inl e \<Rightarrow> Inl e | Inr x \<Rightarrow> f x)"

text \<open>
  \<^verbatim>\<open>_push_unchecked\<close>: four slice assignments at \<^verbatim>\<open>[index: index + states.shape[0]]\<close>,
  then the index moves on. Without allocated arrays the first assignment is a
  \<^verbatim>\<open>TypeError\<close>.
\<close>

definition push_unchecked ::
  "('s, 'a, 'r, 'd) ReplayBuffer \<Rightarrow> 's ndarray \<Rightarrow> 'a ndarray \<Rightarrow> 'r ndarray \<Rightarrow> 'd ndarray
     \<Rightarrow> error + ('s, 'a, 'r, 'd) ReplayBuffer" where
  "push_unchecked buf st ac rw dn =
     (let a = index buf; b = index buf + shape0 st
      in case storage buf of
           None \<Rightarrow> Inl TypeError
         | Some arrs \<Rightarrow>
             bind_err (assign_slice (states_arr arrs) a b st) (\<lambda>st'.
             bind_err (assign_slice (actions_arr arrs) a b ac) (\<lambda>ac'.
             bind_err (assign_slice (rewards_arr arrs) a b rw) (\<lambda>rw'.
             bind_err (assign_slice (dones_arr arrs) a b dn) (\<lambda>dn'.
               Inr (buf\<lparr>storage := Some \<lparr>states_arr = st', actions_arr = ac',
                                          rewards_arr = rw', dones_arr = dn'\<rparr>,
                        index := index buf + shape0 st\<rparr>))))))"

text \<open>
  \<^verbatim>\<open>push(states, actions, rewards, dones)\<close>. The number of axes of an array is fixed by
  its type here, so the assertions compare the first two axes. In the wrapping branch
  \<^verbatim>\<open>n = self.capacity - self.index - states.shape[0]\<close> is negative.
\<close>

definition push ::
  "('s::zero, 'a::zero, 'r::zero, 'd::zero) ReplayBuffer
     \<Rightarrow> 's ndarray \<Rightarrow> 'a ndarray \<Rightarrow> 'r ndarray \<Rightarrow> 'd ndarray
     \<Rightarrow> error + ('s, 'a, 'r, 'd) ReplayBuffer" where
  "push buf st ac rw dn =
     (if \<not> (shape rw = shape dn) then Inl AssertionError
      else if \<not> (shape rw = shape st \<and> shape rw = shape ac) then Inl AssertionError
      else
        (let buf1 =
               (if storage buf = None
                then (let actors = shape1 st
                      in buf\<lparr>storage :=
                               Some \<lparr>states_arr = zeros (capacity buf) actors,
                                     actions_arr = zeros (capacity buf) actors,
                                     rewards_arr = zeros (capacity buf) actors,
                                     dones_arr = zeros (capacity buf) actors\<rparr>\<rparr>)
                else buf)
         in if index buf1 + shape0 st \<le> capacity buf1
            then push_unchecked buf1 st ac rw dn
            else (let n = int (capacity buf1) - int (index buf1) - int (shape0 st)
                  in bind_err (push_unchecked buf1 (slice_to st n) (slice_to ac n)
                                 (slice_to rw n) (slice_to dn n)) (\<lambda>buf2.
                     bind_err (push_unchecked (buf2\<lparr>index := 0\<rparr>) (slice_from st n)
                                 (slice_from ac n) (slice_from rw n) (slice_from dn n)) (\<lambda>buf3.
                       Inr (buf3\<lparr>full_loop := True\<rparr>))))))"

text \<open>\<^verbatim>\<open>__len__\<close>\<close>

definition len :: "('s, 'a, 'r, 'd) ReplayBuffer \<Rightarrow> nat" where
  "len buf = min (index buf) (capacity buf)"

text \<open>
  \<^verbatim>\<open>np.random.randint(high)\<close>: a \<^verbatim>\<open>ValueError\<close> unless \<open>high\<close> is positive, else a
  number below \<open>high\<close>. The second argument is the raw output of the random generator for
  this call; it is reduced to the range, so that every number below \<open>high\<close> can be drawn
  and no other.
\<close>

definition randint :: "int \<Rightarrow> nat \<Rightarrow> error + nat" where
  "randint high raw = (if high \<le> 0 then Inl ValueError else Inr (raw mod nat high))"

text \<open>\<^verbatim>\<open>self.capacity if self.full_loop else self.index\<close>\<close>

definition valid_range :: "('s, 'a, 'r, 'd) ReplayBuffer \<Rightarrow> nat" where
  "valid_range buf = (if full_loop buf then capacity buf else index buf)"

text \<open>
  The two draws of one iteration of the loop in \<^verbatim>\<open>sample\<close>: the actor \<^verbatim>\<open>rand_r\<close> and
  the start time \<^verbatim>\<open>rand_h\<close>. \<open>rnd k\<close> is the raw output of the generator for its
  \<open>k\<close>-th call; iteration \<open>ri\<close> makes the calls \<open>2 * ri\<close> and \<open>2 * ri + 1\<close>.
\<close>

definition draw_actor :: "('s, 'a, 'r, 'd) arrays \<Rightarrow> (nat \<Rightarrow> nat) \<Rightarrow> nat \<Rightarrow> error + nat" where
  "draw_actor arrs rnd ri = randint (int (shape1 (states_arr arrs))) (rnd (2 * ri))"

definition draw_start ::
  "('s, 'a, 'r, 'd) ReplayBuffer \<Rightarrow> (nat \<Rightarrow> nat) \<Rightarrow> nat \<Rightarrow> nat \<Rightarrow> error + nat" where
  "draw_start buf rnd horizon ri =
     randint (int (valid_range buf) - int horizon) (rnd (2 * ri + 1))"

text \<open>
  The body of the loop \<^verbatim>\<open>for ri in range(rollouts)\<close> of \<^verbatim>\<open>sample\<close>, on the four
  output arrays: two draws, then four column assignments.
\<close>

definition sample_body ::
  "('s, 'a, 'r, 'd) ReplayBuffer \<Rightarrow> ('s, 'a, 'r, 'd) arrays \<Rightarrow> (nat \<Rightarrow> nat) \<Rightarrow> nat \<Rightarrow> nat
     \<Rightarrow> ('s, 'a, 'r, 'd) arrays \<Rightarrow> error + ('s, 'a, 'r, 'd) arrays" where
  "sample_body buf arrs rnd horizon ri out =
     bind_err (draw_actor arrs rnd ri) (\<lambda>rand_r.
     bind_err (draw_start buf rnd horizon ri) (\<lambda>rand_h.
     bind_err (set_column (states_arr out) ri
                 (get_window (states_arr arrs) rand_h horizon rand_r)) (\<lambda>st'.
     bind_err (set_column (actions_arr out) ri
                 (get_window (actions_arr arrs) rand_h horizon rand_r)) (\<lambda>ac'.
     bind_err (set_column (rewards_arr out) ri
                 (get_window (rewards_arr arrs) rand_h horizon rand_r)) (\<lambda>rw'.
     bind_err (set_column (dones_arr out) ri
                 (get_window (dones_arr arrs) rand_h horizon rand_r)) (\<lambda>dn'.
       Inr \<lparr>states_arr = st', actions_arr = ac', rewards_arr = rw', dones_arr = dn'\<rparr>))))))"

fun sample_loop ::
  "('s, 'a, 'r, 'd) ReplayBuffer \<Rightarrow> ('s, 'a, 'r, 'd) arrays \<Rightarrow> (nat \<Rightarrow> nat) \<Rightarrow> nat \<Rightarrow> nat list
     \<Rightarrow> ('s, 'a, 'r, 'd) arrays \<Rightarrow> error + ('s, 'a, 'r, 'd) arrays" where
  "sample_loop buf arrs rnd horizon [] out = Inr out"
| "sample_loop buf arrs rnd horizon (ri # ris) out =
     bind_err (sample_body buf arrs rnd horizon ri out)
       (sample_loop buf arrs rnd horizon ris)"

text \<open>
  \<^verbatim>\<open>sample(rollouts, horizon)\<close>. The method reads the buffer and assigns to none of its
  attributes; the buffer is returned beside the result, as it is after the call, also
  when the call raises. Before the first push \<^verbatim>\<open>self.states.shape\<close> is an
  \<^verbatim>\<open>AttributeError\<close>.
\<close>

definition sample ::
  "('s::zero, 'a::zero, 'r::zero, 'd::zero) ReplayBuffer \<Rightarrow> (nat \<Rightarrow> nat) \<Rightarrow> nat \<Rightarrow> nat
     \<Rightarrow> (error + ('s, 'a, 'r, 'd) arrays) \<times> ('s, 'a, 'r, 'd) ReplayBuffer" where
  "sample buf rnd rollouts horizon =
     (case storage buf of
        None \<Rightarrow> (Inl AttributeError, buf)
      | Some arrs \<Rightarrow>
          (sample_loop buf arrs rnd horizon [0..<rollouts]
             \<lparr>states_arr = zeros horizon rollouts, actions_arr = zeros horizon rollouts,
              rewards_arr = zeros horizon rollouts, dones_arr = zeros horizon rollouts\<rparr>,
           buf))"

subsection \<open>A buffer of capacity 4 and two rollouts of length 3\<close>

definition rollout_a :: "nat ndarray" where
  "rollout_a = NDArray 1 [[1], [2], [3]]"

definition rollout_b :: "nat ndarray" where
  "rollout_b = NDArray 1 [[4], [5], [6]]"

definition buffer_a :: "(nat, nat, nat, nat) ReplayBuffer" where
  "buffer_a =
     \<lparr>capacity = 4,
      storage = Some \<lparr>states_arr = NDArray 1 [[1], [2], [3], [0]],
                      actions_arr = NDArray 1 [[1], [2], [3], [0]],
                      rewards_arr = NDArray 1 [[1], [2], [3], [0]],
                      dones_arr = NDArray 1 [[1], [2], [3], [0]]\<rparr>,
      index = 3, full_loop = False\<rparr>"

definition buffer_ab :: "(nat, nat, nat, nat) ReplayBuffer" where
  "buffer_ab =
     \<lparr>capacity = 4,
      storage = Some \<lparr>states_arr = NDArray 1 [[5], [6], [3], [4]],
                      actions_arr = NDArray 1 [[5], [6], [3], [4]],
                      rewards_arr = NDArray 1 [[5], [6], [3], [4]],
                      dones_arr = NDArray 1 [[5], [6], [3], [4]]\<rparr>,
      index = 2, full_loop = True\<rparr>"

subsection \<open>Shapes and written rows\<close>

text \<open>All four arrays have \<open>n\<close> rows and \<open>actors\<close> cells per row.\<close>

definition arrays_shaped :: "nat \<Rightarrow> nat \<Rightarrow> ('s, 'a, 'r, 'd) arrays \<Rightarrow> bool" where
  "arrays_shaped n actors arrs =
     (shape (states_arr arrs) = (n, actors) \<and> shape (actions_arr arrs) = (n, actors)
      \<and> shape (rewards_arr arrs) = (n, actors) \<and> shape (dones_arr arrs) = (n, actors))"

text \<open>
  The rows of \<open>dst\<close> with those of \<open>src\<close> written from position \<open>a\<close> on: what a
  slice assignment yields when the source fits the slice.
\<close>

definition put_rows :: "'c ndarray \<Rightarrow> nat \<Rightarrow> 'c ndarray \<Rightarrow> 'c ndarray" where
  "put_rows dst a src =
     NDArray (shape1 dst) (take a (rows dst) @ rows src @ drop (a + shape0 src) (rows dst))"

text \<open>
  The rows of \<open>src\<close> lie in \<open>new\<close> as a wrapping write from \<open>idx\<close> leaves them: the
  first \<open>cap - idx\<close> rows at the positions \<open>idx, ..., cap - 1\<close>, the remaining rows
  from position 0 on.
\<close>

definition wrapped_rows :: "nat \<Rightarrow> nat \<Rightarrow> 'c ndarray \<Rightarrow> 'c ndarray \<Rightarrow> bool" where
  "wrapped_rows cap idx new src =
     (take (cap - idx) (drop idx (rows new)) = take (cap - idx) (rows src)
      \<and> take (shape0 src - (cap - idx)) (rows new) = drop (cap - idx) (rows src))"

text \<open>
  The buffer is unallocated, or its four arrays have \<^verbatim>\<open>capacity\<close> rows of \<open>actors\<close>
  cells.
\<close>

definition buffer_fits :: "('s, 'a, 'r, 'd) ReplayBuffer \<Rightarrow> nat \<Rightarrow> bool" where
  "buffer_fits buf actors =
     (case storage buf of
        None \<Rightarrow> True
      | Some arrs \<Rightarrow> arrays_shaped (capacity buf) actors arrs)"

subsection \<open>Written cells and reachable buffers\<close>

text \<open>The cells an array holds.\<close>

definition cells :: "'c ndarray \<Rightarrow> 'c set" where
  "cells arr = \<Union> (set ` set (rows arr))"

text \<open>Each of the first \<open>v\<close> rows of an array consists of cells from \<open>P\<close>.\<close>

definition rows_within :: "nat \<Rightarrow> 'c set \<Rightarrow> 'c ndarray \<Rightarrow> bool" where
  "rows_within v P arr = (\<forall>p < v. set (rows arr ! p) \<subseteq> P)"

text \<open>
  The arguments of one \<^verbatim>\<open>push\<close> call, and the cells that the calls of a history have
  handed to the buffer, array by array.
\<close>

type_synonym ('s, 'a, 'r, 'd) rollout = "'s ndarray \<times> 'a ndarray \<times> 'r ndarray \<times> 'd ndarray"

definition pushed_states :: "('s, 'a, 'r, 'd) rollout list \<Rightarrow> 's set" where
  "pushed_states hist = (\<Union>(st, ac, rw, dn) \<in> set hist. cells st)"

definition pushed_actions :: "('s, 'a, 'r, 'd) rollout list \<Rightarrow> 'a set" where
  "pushed_actions hist = (\<Union>(st, ac, rw, dn) \<in> set hist. cells ac)"

definition pushed_rewards :: "('s, 'a, 'r, 'd) rollout list \<Rightarrow> 'r set" where
  "pushed_rewards hist = (\<Union>(st, ac, rw, dn) \<in> set hist. cells rw)"

definition pushed_dones :: "('s, 'a, 'r, 'd) rollout list \<Rightarrow> 'd set" where
  "pushed_dones hist = (\<Union>(st, ac, rw, dn) \<in> set hist. cells dn)"

text \<open>The first \<open>v\<close> time slots of all four arrays hold pushed cells only.\<close>

definition arrays_within ::
  "nat \<Rightarrow> ('s, 'a, 'r, 'd) rollout list \<Rightarrow> ('s, 'a, 'r, 'd) arrays \<Rightarrow> bool" where
  "arrays_within v hist arrs =
     (rows_within v (pushed_states hist) (states_arr arrs)
      \<and> rows_within v (pushed_actions hist) (actions_arr arrs)
      \<and> rows_within v (pushed_rewards hist) (rewards_arr arrs)
      \<and> rows_within v (pushed_dones hist) (dones_arr arrs))"

definition arrays_wf :: "('s, 'a, 'r, 'd) arrays \<Rightarrow> bool" where
  "arrays_wf arrs =
     (wf_ndarray (states_arr arrs) \<and> wf_ndarray (actions_arr arrs)
      \<and> wf_ndarray (rewards_arr arrs) \<and> wf_ndarray (dones_arr arrs))"

text \<open>
  What every buffer built by pushes satisfies: without a wrap the write index is within
  the capacity; the arrays, once allocated, have \<^verbatim>\<open>capacity\<close> rows, and every time slot
  below the valid range (the capacity after a wrap, else the write index) holds pushed
  cells.
\<close>

definition buffer_inv ::
  "nat \<Rightarrow> ('s, 'a, 'r, 'd) rollout list \<Rightarrow> ('s, 'a, 'r, 'd) ReplayBuffer \<Rightarrow> bool" where
  "buffer_inv cap hist buf =
     (capacity buf = cap \<and> (\<not> full_loop buf \<longrightarrow> index buf \<le> cap)
      \<and> (case storage buf of
            None \<Rightarrow> index buf = 0 \<and> \<not> full_loop buf
          | Some arrs \<Rightarrow>
              (\<exists>actors. arrays_shaped cap actors arrs) \<and> arrays_wf arrs
              \<and> arrays_within (valid_range buf) hist arrs))"

text \<open>
  The buffers that arise from \<^verbatim>\<open>ReplayBuffer(cap)\<close> by successful pushes of rectangular
  arrays, with the history of the rollouts pushed.
\<close>

inductive reachable ::
  "nat \<Rightarrow> ('s::zero, 'a::zero, 'r::zero, 'd::zero) rollout list
     \<Rightarrow> ('s, 'a, 'r, 'd) ReplayBuffer \<Rightarrow> bool" where
  reachable_init: "reachable cap [] (ReplayBuffer_init cap)"
| reachable_push:
    "reachable cap hist buf \<Longrightarrow> wf_ndarray st \<Longrightarrow> wf_ndarray ac \<Longrightarrow> wf_ndarray rw
       \<Longrightarrow> wf_ndarray dn \<Longrightarrow> push buf st ac rw dn = Inr buf'
       \<Longrightarrow> reachable cap (hist @ [(st, ac, rw, dn)]) buf'"

text \<open>\<^verbatim>\<open>arr[:, c]\<close>\<close>

definition column :: "'c ndarray \<Rightarrow> nat \<Rightarrow> 'c list" where
  "column arr c = map (\<lambda>row. row ! c) (rows arr)"

text \<open>Two groups of output arrays agree on column \<open>c\<close>.\<close>

definition columns_eq :: "('s, 'a, 'r, 'd) arrays \<Rightarrow> ('s, 'a, 'r, 'd) arrays \<Rightarrow> nat \<Rightarrow> bool" where
  "columns_eq out1 out2 c =
     (column (states_arr out1) c = column (states_arr out2) c
      \<and> column (actions_arr out1) c = column (actions_arr out2) c
      \<and> column (rewards_arr out1) c = column (rewards_arr out2) c
      \<and> column (dones_arr out1) c = column (dones_arr out2) c)"

text \<open>
  Column \<open>ri\<close> of each output array is the window of \<open>horizon\<close> time slots from
  \<open>rand_h\<close> on of actor \<open>rand_r\<close>.
\<close>

definition window_at ::
  "('s, 'a, 'r, 'd) arrays \<Rightarrow> nat \<Rightarrow> ('s, 'a, 'r, 'd) arrays \<Rightarrow> nat \<Rightarrow> nat \<Rightarrow> nat \<Rightarrow> bool" where
  "window_at out ri arrs rand_h horizon rand_r =
     (column (states_arr out) ri = get_window (states_arr arrs) rand_h horizon rand_r
      \<and> column (actions_arr out) ri = get_window (actions_arr arrs) rand_h horizon rand_r
      \<and> column (rewards_arr out) ri = get_window (rewards_arr arrs) rand_h horizon rand_r
      \<and> column (dones_arr out) ri = get_window (dones_arr arrs) rand_h horizon rand_r)"

text \<open>A batch of two windows of length 1, both the second time slot of the first rollout.\<close>

definition window_a :: "(nat, nat, nat, nat) arrays" where
  "window_a =
     \<lparr>states_arr = NDArray 2 [[2, 2]], actions_arr = NDArray 2 [[2, 2]],
      rewards_arr = NDArray 2 [[2, 2]], dones_arr = NDArray 2 [[2, 2]]\<rparr>"

section \<open>Properties of the sample buffer\<close>

lemma append_step_lengths:
  assumes "length (probs s) = length (states s)"
      and "length (vals s) = length (states s)"
      and "length (actions s) = length (states s)"
      and "length (dones s) = length (rewards s)"
      and "states s \<noteq> [] \<longrightarrow> Suc (length (rewards s)) = length (states s)"
      and "states s = [] \<longrightarrow> rewards s = []"
  shows "length (probs (append_step s c)) = length (states (append_step s c))
       \<and> length (vals (append_step s c)) = length (states (append_step s c))
       \<and> length (actions (append_step s c)) = length (states (append_step s c))
       \<and> length (dones (append_step s c)) = length (rewards (append_step s c))
       \<and> Suc (length (rewards (append_step s c))) = length (states (append_step s c))
       \<and> states (append_step s c) \<noteq> []"
  using assms by (cases c) (auto simp: append_to_sample_def Let_def)

lemma foldl_append_step_lengths:
  assumes "length (probs s) = length (states s)"
      and "length (vals s) = length (states s)"
      and "length (actions s) = length (states s)"
      and "length (dones s) = length (rewards s)"
      and "Suc (length (rewards s)) = length (states s)"
  shows "length (probs (foldl append_step s cs)) = length (states (foldl append_step s cs))
       \<and> length (vals (foldl append_step s cs)) = length (states (foldl append_step s cs))
       \<and> length (actions (foldl append_step s cs)) = length (states (foldl append_step s cs))
       \<and> length (dones (foldl append_step s cs)) = length (rewards (foldl append_step s cs))
       \<and> Suc (length (rewards (foldl append_step s cs)))
           = length (states (foldl append_step s cs))"
  using assms
proof (induction cs arbitrary: s)
  case Nil
  then show ?case by simp
next
  case (Cons c cs)
  have ne: "states s \<noteq> []" using Cons.prems(5) by auto
  have step: "length (probs (append_step s c)) = length (states (append_step s c))
       \<and> length (vals (append_step s c)) = length (states (append_step s c))
       \<and> length (actions (append_step s c)) = length (states (append_step s c))
       \<and> length (dones (append_step s c)) = length (rewards (append_step s c))
       \<and> Suc (length (rewards (append_step s c))) = length (states (append_step s c))
       \<and> states (append_step s c) \<noteq> []"
    by (rule append_step_lengths) (use Cons.prems ne in auto)
  show ?case using Cons.IH [of "append_step s c"] step by simp
qed

text \<open>
  Claim C9. On a fresh sample buffer the first \<^verbatim>\<open>append_to_sample\<close> call stores the
  state, the probability parameters, the value and the action, and neither a reward nor a
  done flag. After every call of any sequence of calls, \<^verbatim>\<open>len(rewards) == len(dones) ==
  len(states) - 1\<close> and \<^verbatim>\<open>len(states) == len(probs) == len(values) == len(actions)\<close>.
\<close>

theorem append_to_sample_invariant:
  fixes c :: "('s, 'r, 'd, 'p, 'v, 'a) step_args"
  shows "append_to_sample create_new_sample st rw dn ac pr vl =
           \<lparr>states = [st], rewards = [], dones = [], probs = [pr], vals = [vl], actions = [ac]\<rparr>
       \<and> length (rewards (append_all (c # cs))) = length (dones (append_all (c # cs)))
       \<and> int (length (dones (append_all (c # cs))))
           = int (length (states (append_all (c # cs)))) - 1
       \<and> length (states (append_all (c # cs))) = length (probs (append_all (c # cs)))
       \<and> length (probs (append_all (c # cs))) = length (vals (append_all (c # cs)))
       \<and> length (vals (append_all (c # cs))) = length (actions (append_all (c # cs)))"
proof -
  let ?s1 = "append_step create_new_sample c"
  have first: "append_to_sample create_new_sample st rw dn ac pr vl =
           \<lparr>states = [st], rewards = [], dones = [], probs = [pr], vals = [vl], actions = [ac]\<rparr>"
    by (simp add: append_to_sample_def create_new_sample_def)
  have s1: "length (probs ?s1) = length (states ?s1)
       \<and> length (vals ?s1) = length (states ?s1)
       \<and> length (actions ?s1) = length (states ?s1)
       \<and> length (dones ?s1) = length (rewards ?s1)
       \<and> Suc (length (rewards ?s1)) = length (states ?s1)
       \<and> states ?s1 \<noteq> []"
    by (rule append_step_lengths) (simp_all add: create_new_sample_def)
  have all: "append_all (c # cs) = foldl append_step ?s1 cs"
    by (simp add: append_all_def)
  have inv: "length (probs (foldl append_step ?s1 cs)) = length (states (foldl append_step ?s1 cs))
       \<and> length (vals (foldl append_step ?s1 cs)) = length (states (foldl append_step ?s1 cs))
       \<and> length (actions (foldl append_step ?s1 cs)) = length (states (foldl append_step ?s1 cs))
       \<and> length (dones (foldl append_step ?s1 cs)) = length (rewards (foldl append_step ?s1 cs))
       \<and> Suc (length (rewards (foldl append_step ?s1 cs)))
           = length (states (foldl append_step ?s1 cs))"
    by (rule foldl_append_step_lengths) (use s1 in auto)
  show ?thesis using first inv unfolding all by auto
qed

section \<open>Properties of the PPO loss\<close>



text \<open>
  Claim C7, as stated: the value loss is the value-loss coefficient times the elementwise
  maximum of the two smooth losses. It fails: for a prediction of 2 against a return of 0
  both smooth losses are 3/2, the coefficient is 1, and the code yields 3/4.
\<close>

theorem loss_value_counterexample:
  "loss_value ppo_default elem_far \<noteq>
     value_loss_scale ppo_default *
       max (smooth_l1_loss (value_new elem_far) (return elem_far))
           (smooth_l1_loss
              (value_old elem_far
                 + tensor_clamp (value_new elem_far - value_old elem_far)
                     (- (value_clip ppo_default * clip_mult ppo_default))
                     (value_clip ppo_default * clip_mult ppo_default))
              (return elem_far))"
  by (simp add: loss_value_def ppo_default_def elem_far_def clip_mult_def
      tensor_clamp_def smooth_l1_loss_def Let_def)

text \<open>
  Claim C7, amended. For every minibatch element the value loss is the value-loss
  coefficient times the constant 0.5 times the maximum of the smooth loss of the unclipped
  prediction against the return and the smooth loss of the clipped prediction
  \<^verbatim>\<open>old_value + clamp(new_value - old_value, -c, c)\<close>, \<^verbatim>\<open>c = value_clip * clip_mult\<close>,
  against the return.
\<close>

theorem loss_value_half_max:
  "loss_value ppo e =
     value_loss_scale ppo * 0.5 *
       max (smooth_l1_loss (value_new e) (return e))
           (smooth_l1_loss
              (value_old e
                 + tensor_clamp (value_new e - value_old e)
                     (- (value_clip ppo * clip_mult ppo)) (value_clip ppo * clip_mult ppo))
              (return e))
   \<and> map (loss_value ppo) batch =
       map (\<lambda>e. value_loss_scale ppo * 0.5 *
              max (smooth_l1_loss (value_new e) (return e))
                  (smooth_l1_loss
                     (value_old e
                        + tensor_clamp (value_new e - value_old e)
                            (- (value_clip ppo * clip_mult ppo))
                            (value_clip ppo * clip_mult ppo))
                     (return e))) batch"
  by (simp add: loss_value_def Let_def)

section \<open>Properties of the update loop\<close>

lemma get_ppo_loss_raises:
  "isnan tloss \<or> isinf tloss \<Longrightarrow> get_ppo_loss tloss kl = Inl AssertionError"
  by (auto simp: get_ppo_loss_def)

lemma get_ppo_loss_returns:
  "\<not> isnan tloss \<Longrightarrow> \<not> isinf tloss \<Longrightarrow> get_ppo_loss tloss kl = Inr (tloss, kl)"
  by (simp add: get_ppo_loss_def)

lemma minibatch_step_raises:
  assumes "isnan (fst (forward (weights s) b)) \<or> isinf (fst (forward (weights s) b))"
  shows "minibatch_step forward optimize s b = Inl (AssertionError, s)"
proof -
  obtain tloss kl where f: "forward (weights s) b = (tloss, kl)"
    by (cases "forward (weights s) b")
  with assms have "get_ppo_loss tloss kl = Inl AssertionError"
    by (simp add: get_ppo_loss_raises)
  with f show ?thesis by (simp add: minibatch_step_def)
qed

lemma minibatch_step_returns:
  assumes "\<not> isnan (fst (forward (weights s) b))" and "\<not> isinf (fst (forward (weights s) b))"
  shows "minibatch_step forward optimize s b =
           Inr (s\<lparr>weights := optimize (weights s) b, opt_steps := Suc (opt_steps s)\<rparr>)"
proof -
  obtain tloss kl where f: "forward (weights s) b = (tloss, kl)"
    by (cases "forward (weights s) b")
  with assms have "get_ppo_loss tloss kl = Inr (tloss, kl)"
    by (simp add: get_ppo_loss_returns)
  with f show ?thesis by (simp add: minibatch_step_def)
qed

lemma run_batches_append:
  "run_batches forward optimize s (pre @ post) =
     (case run_batches forward optimize s pre of
        Inl r \<Rightarrow> Inl r
      | Inr s' \<Rightarrow> run_batches forward optimize s' post)"
  by (induction pre arbitrary: s) (auto split: sum.splits)

lemma run_batches_finite:
  assumes "\<And>w b. \<not> isnan (fst (forward w b)) \<and> \<not> isinf (fst (forward w b))"
  shows "\<exists>s'. run_batches forward optimize s bs = Inr s'
              \<and> opt_steps s' = opt_steps s + length bs"
proof (induction bs arbitrary: s)
  case Nil
  then show ?case by simp
next
  case (Cons b bs)
  let ?s1 = "s\<lparr>weights := optimize (weights s) b, opt_steps := Suc (opt_steps s)\<rparr>"
  have step: "minibatch_step forward optimize s b = Inr ?s1"
    using assms by (intro minibatch_step_returns) auto
  from Cons.IH [of ?s1] obtain s' where
    "run_batches forward optimize ?s1 bs = Inr s'" "opt_steps s' = opt_steps ?s1 + length bs"
    by blast
  with step show ?case by simp
qed

lemma length_minibatches:
  "length (minibatches randperm ppo_iters batches batch_size) = ppo_iters * batches"
  by (simp add: minibatches_def length_concat comp_def sum_list_triv)

lemma batch_count_positive:
  "0 < batch_size \<Longrightarrow>
     batch_count num_actors horizon batch_size
       = Inr (max 1 (num_actors * horizon div batch_size))"
  by (simp add: batch_count_def floordiv_def)

lemma batch_count_zero:
  "batch_count num_actors horizon 0 = Inl ZeroDivisionError"
  by (simp add: batch_count_def floordiv_def)

text \<open>
  Claim C8. When the total loss of a minibatch is NaN or infinite, the assertion in
  \<^verbatim>\<open>_get_ppo_loss\<close> raises before \<^verbatim>\<open>loss.backward()\<close> and \<^verbatim>\<open>optimizer.step()\<close> run
  for that minibatch: the parameters and the step count are those the minibatch started
  with, no later minibatch runs, and the update as a whole ends with that exception. When
  the total loss is finite the minibatch takes its optimizer step, and an update with a
  positive batch size in which every total loss is finite raises nothing and takes
  \<^verbatim>\<open>ppo_iters * batches\<close> steps. With a batch size of 0 the update raises
  \<^verbatim>\<open>ZeroDivisionError\<close> before any minibatch, whatever the losses would be.
\<close>

theorem nonfinite_loss_is_fatal:
  "(isnan (fst (forward (weights s) b)) \<or> isinf (fst (forward (weights s) b)) \<longrightarrow>
      minibatch_step forward optimize s b = Inl (AssertionError, s))
   \<and> (\<not> isnan (fst (forward (weights s) b)) \<and> \<not> isinf (fst (forward (weights s) b)) \<longrightarrow>
      minibatch_step forward optimize s b =
        Inr (s\<lparr>weights := optimize (weights s) b, opt_steps := Suc (opt_steps s)\<rparr>))
   \<and> (batch_count num_actors horizon batch_size = Inr batches
      \<and> minibatches randperm ppo_iters batches batch_size = pre @ b # post
      \<and> run_batches forward optimize s0 pre = Inr s
      \<and> (isnan (fst (forward (weights s) b)) \<or> isinf (fst (forward (weights s) b))) \<longrightarrow>
      ppo_update forward optimize randperm ppo_iters num_actors horizon batch_size s0 =
        Inl (AssertionError, s))
   \<and> (0 < batch_size
      \<and> (\<forall>w i. \<not> isnan (fst (forward w i)) \<and> \<not> isinf (fst (forward w i))) \<longrightarrow>
      (\<exists>s'. ppo_update forward optimize randperm ppo_iters num_actors horizon batch_size s0
               = Inr s'
           \<and> opt_steps s' =
               opt_steps s0 + ppo_iters * max 1 (num_actors * horizon div batch_size)))
   \<and> (batch_size = 0 \<longrightarrow>
      ppo_update forward optimize randperm ppo_iters num_actors horizon batch_size s0 =
        Inl (ZeroDivisionError, s0))"
proof (intro conjI impI)
  assume "isnan (fst (forward (weights s) b)) \<or> isinf (fst (forward (weights s) b))"
  then show "minibatch_step forward optimize s b = Inl (AssertionError, s)"
    by (rule minibatch_step_raises)
next
  assume "\<not> isnan (fst (forward (weights s) b)) \<and> \<not> isinf (fst (forward (weights s) b))"
  then show "minibatch_step forward optimize s b =
        Inr (s\<lparr>weights := optimize (weights s) b, opt_steps := Suc (opt_steps s)\<rparr>)"
    by (simp add: minibatch_step_returns)
next
  assume a: "batch_count num_actors horizon batch_size = Inr batches
      \<and> minibatches randperm ppo_iters batches batch_size = pre @ b # post
      \<and> run_batches forward optimize s0 pre = Inr s
      \<and> (isnan (fst (forward (weights s) b)) \<or> isinf (fst (forward (weights s) b)))"
  then have "minibatch_step forward optimize s b = Inl (AssertionError, s)"
    by (simp add: minibatch_step_raises)
  with a show "ppo_update forward optimize randperm ppo_iters num_actors horizon batch_size s0 =
        Inl (AssertionError, s)"
    by (simp add: ppo_update_def run_batches_append)
next
  assume a: "0 < batch_size
      \<and> (\<forall>w i. \<not> isnan (fst (forward w i)) \<and> \<not> isinf (fst (forward w i)))"
  let ?batches = "max 1 (num_actors * horizon div batch_size)"
  from a have c: "batch_count num_actors horizon batch_size = Inr ?batches"
    by (simp add: batch_count_positive)
  from a have "\<exists>s'. run_batches forward optimize s0
                    (minibatches randperm ppo_iters ?batches batch_size) = Inr s'
              \<and> opt_steps s' = opt_steps s0
                  + length (minibatches randperm ppo_iters ?batches batch_size)"
    by (intro run_batches_finite) simp
  then show "\<exists>s'. ppo_update forward optimize randperm ppo_iters num_actors horizon batch_size s0
               = Inr s'
           \<and> opt_steps s' =
               opt_steps s0 + ppo_iters * max 1 (num_actors * horizon div batch_size)"
    by (simp add: ppo_update_def c length_minibatches)
next
  assume "batch_size = 0"
  then show "ppo_update forward optimize randperm ppo_iters num_actors horizon batch_size s0 =
        Inl (ZeroDivisionError, s0)"
    by (simp add: ppo_update_def batch_count_zero)
qed

theorem nonfinite_loss_is_fatal_witness:
  "isnan (fst (forward_blowup (weights \<lparr>weights = 2, opt_steps = 2\<rparr>) [0, 1]))
   \<and> minibatch_step forward_blowup optimize_count \<lparr>weights = 2, opt_steps = 2\<rparr> [0, 1]
       = Inl (AssertionError, \<lparr>weights = 2, opt_steps = 2\<rparr>)
   \<and> batch_count 2 2 2 = Inr 2
   \<and> ppo_update forward_blowup optimize_count (\<lambda>i. [0, 1, 2, 3]) 2 2 2 2
        \<lparr>weights = 0, opt_steps = 0\<rparr>
       = Inl (AssertionError, \<lparr>weights = 2, opt_steps = 2\<rparr>)
   \<and> minibatch_step forward_fine optimize_count \<lparr>weights = 0, opt_steps = 0\<rparr> [0, 1]
       = Inr \<lparr>weights = 1, opt_steps = 1\<rparr>
   \<and> (\<exists>s'. ppo_update forward_fine optimize_count (\<lambda>i. [0, 1, 2, 3]) 2 2 2 2
               \<lparr>weights = 0, opt_steps = 0\<rparr> = Inr s'
           \<and> opt_steps s' = 4)
   \<and> ppo_update forward_fine optimize_count (\<lambda>i. [0, 1, 2, 3]) 2 2 2 0
        \<lparr>weights = 0, opt_steps = 0\<rparr>
       = Inl (ZeroDivisionError, \<lparr>weights = 0, opt_steps = 0\<rparr>)"
proof -
  have bc: "batch_count 2 2 2 = Inr 2"
    by (simp add: batch_count_def floordiv_def)
  have mb: "minibatches (\<lambda>i. [0, 1, 2, 3]) 2 2 2 = [[0, 1], [2, 3]] @ [0, 1] # [[2, 3]]"
    by code_simp
  have pre: "run_batches forward_blowup optimize_count \<lparr>weights = 0, opt_steps = 0\<rparr>
               [[0, 1], [2, 3]] = Inr \<lparr>weights = 2, opt_steps = 2\<rparr>"
    by (simp add: minibatch_step_def forward_blowup_def optimize_count_def get_ppo_loss_def)
  have nan: "isnan (fst (forward_blowup (weights \<lparr>weights = 2, opt_steps = 2\<rparr>) [0, 1]))"
    by (simp add: forward_blowup_def)
  have fin: "\<forall>w i. \<not> isnan (fst (forward_fine w i)) \<and> \<not> isinf (fst (forward_fine w i))"
    by (simp add: forward_fine_def)
  show ?thesis
    using nonfinite_loss_is_fatal
            [where forward = forward_blowup and s = "\<lparr>weights = 2, opt_steps = 2\<rparr>"
               and b = "[0, 1]" and optimize = optimize_count
               and randperm = "\<lambda>i. [0, 1, 2, 3]" and ppo_iters = 2 and num_actors = 2
               and horizon = 2 and batch_size = 2 and batches = 2
               and pre = "[[0, 1], [2, 3]]" and post = "[[2, 3]]"
               and ?s0.0 = "\<lparr>weights = 0, opt_steps = 0\<rparr>"]
          nonfinite_loss_is_fatal
            [where forward = forward_fine and s = "\<lparr>weights = 0, opt_steps = 0\<rparr>"
               and b = "[0, 1]" and optimize = optimize_count
               and randperm = "\<lambda>i. [0, 1, 2, 3]" and ppo_iters = 2 and num_actors = 2
               and horizon = 2 and batch_size = 2 and batches = 2
               and pre = "[]" and post = "[]"
               and ?s0.0 = "\<lparr>weights = 0, opt_steps = 0\<rparr>"]
          nonfinite_loss_is_fatal
            [where forward = forward_fine and s = "\<lparr>weights = 0, opt_steps = 0\<rparr>"
               and b = "[0, 1]" and optimize = optimize_count
               and randperm = "\<lambda>i. [0, 1, 2, 3]" and ppo_iters = 2 and num_actors = 2
               and horizon = 2 and batch_size = 0 and batches = 2
               and pre = "[]" and post = "[]"
               and ?s0.0 = "\<lparr>weights = 0, opt_steps = 0\<rparr>"]
          bc mb pre nan fin
    by (simp add: optimize_count_def)
qed

section \<open>Properties of advantages and returns\<close>

lemma ret_at_done:
  assumes "t < length rws" and "dns ! t ! a"
  shows "ret_at rws vls dns gamma a t = rws ! t ! a"
  using assms by (subst ret_at.simps) simp

lemma adv_at_done:
  assumes "t < length rws" and "dns ! t ! a"
  shows "adv_at rws vls dns gamma lam a t = rws ! t ! a - vls ! t ! a"
  using assms by (subst adv_at.simps) simp

lemma calc_returns_nth:
  assumes "t < length rws" and "a < length (rws ! t)"
  shows "calc_returns rws vls dns gamma ! t ! a
           = ret_at rws vls dns gamma a t"
  using assms by (simp add: calc_returns_def)

lemma calc_advantages_nth:
  assumes "t < length rws" and "a < length (rws ! t)"
  shows "calc_advantages rws vls dns gamma lam ! t ! a
           = adv_at rws vls dns gamma lam a t"
  using assms by (simp add: calc_advantages_def)

text \<open>
  Claim C3. Let the done flag of actor \<open>a\<close> at time \<open>t\<close> be true. Then the return
  \<^verbatim>\<open>R_t\<close> and the advantage \<^verbatim>\<open>A_t\<close> of that actor, as the recursions inside
  \<^verbatim>\<open>_process_rewards\<close> compute them from the scaled rws, are the same for any two value
  arrays that agree on \<^verbatim>\<open>V_t\<close> of that actor: the value estimate \<^verbatim>\<open>V_{t+1}\<close> and all
  later ones may be changed at will. The return array that \<^verbatim>\<open>_process_rewards\<close> hands
  back is unchanged at \<open>(t, a)\<close> too. \<^verbatim>\<open>A_t\<close> is the advantage of the recursion; the
  standardisation that follows it subtracts the mean of the whole batch and is not part
  of the statement.
\<close>

theorem terminal_isolation:
  assumes "t < length rws" and "a < length (rws ! t)"
      and "dns ! t ! a"
      and "vls' ! t ! a = vls ! t ! a"
  shows "calc_advantages (map (map (\<lambda>r. reward_scale * r)) rws) vls' dns
             gamma lam ! t ! a
           = calc_advantages (map (map (\<lambda>r. reward_scale * r)) rws) vls dns
               gamma lam ! t ! a
       \<and> calc_returns (map (map (\<lambda>r. reward_scale * r)) rws) vls' dns gamma ! t ! a
           = calc_returns (map (map (\<lambda>r. reward_scale * r)) rws) vls dns gamma
               ! t ! a
       \<and> fst (snd (process_rewards rws vls' dns gamma lam reward_scale)) ! t ! a
           = fst (snd (process_rewards rws vls dns gamma lam reward_scale)) ! t ! a"
proof -
  let ?nr = "map (map (\<lambda>r. reward_scale * r)) rws"
  have t: "t < length ?nr" and a: "a < length (?nr ! t)"
    using assms(1,2) by simp_all
  have adv: "calc_advantages ?nr vs dns gamma lam ! t ! a = ?nr ! t ! a - vs ! t ! a" for vs
    using t a assms(3) by (simp only: calc_advantages_nth adv_at_done)
  have ret: "calc_returns ?nr vs dns gamma ! t ! a = ?nr ! t ! a" for vs
    using t a assms(3) by (simp only: calc_returns_nth ret_at_done)
  have out: "fst (snd (process_rewards rws vs dns gamma lam reward_scale))
               = calc_returns ?nr vs dns gamma" for vs
    by (simp add: process_rewards_def Let_def)
  show ?thesis
    by (simp only: adv ret out assms(4))
qed

theorem terminal_isolation_witness:
  "(0::nat) < length [[1], [1::real]] \<and> (0::nat) < length ([[1], [1::real]] ! 0)
   \<and> [[True], [False]] ! 0 ! 0
   \<and> [[0], [100], [-3::real]] ! 0 ! 0 = [[0], [5], [7::real]] ! 0 ! 0
   \<and> calc_advantages (map (map (\<lambda>r. 2 * r)) [[1], [1]]) [[0], [100], [-3]]
         [[True], [False]] (99 / 100) (95 / 100) ! 0 ! 0
       = calc_advantages (map (map (\<lambda>r. 2 * r)) [[1], [1]]) [[0], [5], [7]]
           [[True], [False]] (99 / 100) (95 / 100) ! 0 ! 0
   \<and> calc_returns (map (map (\<lambda>r. 2 * r)) [[1], [1]]) [[0], [100], [-3]]
         [[True], [False]] (99 / 100) ! 0 ! 0
       = calc_returns (map (map (\<lambda>r. 2 * r)) [[1], [1]]) [[0], [5], [7]]
           [[True], [False]] (99 / 100) ! 0 ! 0"
  using terminal_isolation
          [of 0 "[[1], [1]]" 0 "[[True], [False]]" "[[0], [100], [-3]]" "[[0], [5], [7]]"
              2 "99 / 100" "95 / 100"]
  by simp

section \<open>Properties of the discriminator fake step\<close>

text \<open>
  What one unroll step does, for any networks: from a state with at least one stored
  code, step \<open>i > 0\<close> samples \<open>cur_actions\<close> from the policy at the current code, and
  appends the generator's output on the current code and the \<^emph>\<open>replayed\<close> actions.
\<close>

lemma fake_step_body_later:
  assumes "i \<noteq> 0" and "all_gen_hidden_codes l = cs @ [cur_code]"
  shows "fake_step_body nets states0 replay_actions i l =
           Inr \<lparr>disc_fake = disc_fake l @
                   [world_disc nets cur_code (fst (world_gen nets cur_code replay_actions))
                      (pd_sample nets i (snd (model_code nets cur_code)))
                      (fst (snd (world_gen nets cur_code replay_actions)))
                      (snd (snd (world_gen nets cur_code replay_actions)))],
                 all_gen_hidden_codes =
                   cs @ [cur_code, fst (world_gen nets cur_code replay_actions)],
                 all_gen_actions =
                   all_gen_actions l @ [pd_sample nets i (snd (model_code nets cur_code))],
                 all_gen_rewards =
                   all_gen_rewards l @ [fst (snd (world_gen nets cur_code replay_actions))],
                 all_gen_dones =
                   all_gen_dones l @ [snd (snd (world_gen nets cur_code replay_actions))]\<rparr>"
  using assms
  by (simp add: fake_step_body_def last_elem_def Let_def split: prod.splits)

text \<open>
  Claim C2 says that each unroll step invokes the generator with the current hidden code
  and the action sampled from the current policy at that step. The code invokes it with
  the replayed action tensor instead. With a start state 0, replayed actions 100 and a
  horizon of 2 the sampled actions are 1 and 101, while the generated rewards (the
  generator's action argument) are 100 and 100, and the generated codes are 100 and 200:
  the generator applied to the sampled action would have produced the code 1 and the
  reward 1 in the first step.
\<close>

theorem fake_step_uses_replayed_actions:
  "disc_fake_unroll nets_visible 0 100 2 =
     Inr \<lparr>disc_fake = [(0, 100, 1), (100, 200, 101)],
           all_gen_hidden_codes = [0, 100, 200],
           all_gen_actions = [1, 101],
           all_gen_rewards = [100, 100],
           all_gen_dones = [0, 0]\<rparr>
   \<and> world_gen nets_visible 0 1 = (1, 1, 0)
   \<and> world_gen nets_visible 0 100 = (100, 100, 0)"
proof -
  have u: "[0..<2] = [0, Suc 0]"
    by (simp add: upt_rec)
  show ?thesis
    unfolding disc_fake_unroll_def u
    by (simp add: fake_step_body_def last_elem_def nets_visible_def fake_lists_empty_def)
qed

section \<open>Properties of the replay buffer\<close>

text \<open>
  Claim C1 says that once the pushed lengths add up to more than the capacity,
  \<^verbatim>\<open>full_loop\<close> is true and \<^verbatim>\<open>__len__\<close> returns the capacity. Two pushes of three
  time slots into a buffer of capacity 4 wrap around: \<^verbatim>\<open>full_loop\<close> is true, the write
  index is 2, and \<^verbatim>\<open>__len__\<close>, which is \<^verbatim>\<open>min(self.index, self.capacity)\<close>, returns 2.
\<close>

theorem len_after_wrap:
  "push (ReplayBuffer_init 4) rollout_a rollout_a rollout_a rollout_a = Inr buffer_a
   \<and> push buffer_a rollout_b rollout_b rollout_b rollout_b = Inr buffer_ab
   \<and> shape0 rollout_a + shape0 rollout_b = 6
   \<and> capacity buffer_ab = 4
   \<and> full_loop buffer_ab
   \<and> len buffer_ab = 2"
  by code_simp

text \<open>
  Claim C10. With at least one rollout requested and a valid written range (the capacity
  if \<^verbatim>\<open>full_loop\<close>, else the write index) that is at most the horizon, \<^verbatim>\<open>sample\<close>
  raises: an \<^verbatim>\<open>AttributeError\<close> before the first push, else the \<^verbatim>\<open>ValueError\<close> of
  the first draw. Nothing is returned, and the buffer (arrays, write index and
  \<^verbatim>\<open>full_loop\<close>) is as it was.
\<close>

theorem sample_raises_when_short:
  assumes "1 \<le> rollouts" and "valid_range buf \<le> horizon"
  shows "fst (sample buf rnd rollouts horizon)
           = (if storage buf = None then Inl AttributeError else Inl ValueError)
       \<and> snd (sample buf rnd rollouts horizon) = buf"
proof (cases "storage buf")
  case None
  then show ?thesis by (simp add: sample_def)
next
  case (Some arrs)
  from assms(1) have u: "[0..<rollouts] = 0 # [1..<rollouts]"
    by (simp add: upt_rec)
  have s: "draw_start buf rnd horizon ri = Inl ValueError" for ri
    using assms(2) by (simp add: draw_start_def randint_def)
  have "sample_body buf arrs rnd horizon 0 out = Inl ValueError" for out
    by (cases "draw_actor arrs rnd 0")
       (simp_all add: sample_body_def bind_err_def s draw_actor_def randint_def
          split: if_splits)
  with Some u show ?thesis by (simp add: sample_def bind_err_def)
qed

theorem sample_raises_when_short_witness:
  "(1::nat) \<le> 2 \<and> valid_range buffer_a \<le> 3
   \<and> fst (sample buffer_a (\<lambda>k. k) 2 3) = Inl ValueError
   \<and> snd (sample buffer_a (\<lambda>k. k) 2 3) = buffer_a"
proof -
  have v: "valid_range buffer_a \<le> 3"
    by (simp add: valid_range_def buffer_a_def)
  have s: "storage buffer_a \<noteq> None"
    by (simp add: buffer_a_def)
  show ?thesis
    using sample_raises_when_short [of 2 buffer_a 3 "\<lambda>k. k"] v s by simp
qed

lemma assign_slice_fits:
  assumes "a + shape0 src \<le> shape0 dst" and "shape1 src = shape1 dst"
  shows "assign_slice dst a (a + shape0 src) src = Inr (put_rows dst a src)"
  using assms
  by (simp add: assign_slice_def broadcast_to_def put_rows_def shape0_def Let_def min_def max_def)

lemma shape_put_rows:
  assumes "shape dst = (n, actors)" and "shape src = (k, actors')" and "a + k \<le> n"
  shows "shape (put_rows dst a src) = (n, actors)"
  using assms by (auto simp: put_rows_def shape_def shape0_def)

lemma push_unchecked_fits:
  assumes "storage buf = Some arrs"
      and "arrays_shaped n actors arrs"
      and "shape st = (k, actors)" and "shape ac = (k, actors)"
      and "shape rw = (k, actors)" and "shape dn = (k, actors)"
      and "index buf + k \<le> n"
  shows "push_unchecked buf st ac rw dn =
           Inr (buf\<lparr>storage := Some \<lparr>states_arr = put_rows (states_arr arrs) (index buf) st,
                                      actions_arr = put_rows (actions_arr arrs) (index buf) ac,
                                      rewards_arr = put_rows (rewards_arr arrs) (index buf) rw,
                                      dones_arr = put_rows (dones_arr arrs) (index buf) dn\<rparr>,
                    index := index buf + k\<rparr>)"
proof -
  have s: "assign_slice (states_arr arrs) (index buf) (index buf + k) st
             = Inr (put_rows (states_arr arrs) (index buf) st)"
    using assign_slice_fits [of "index buf" st "states_arr arrs"] assms
    by (simp add: arrays_shaped_def shape_def)
  have a: "assign_slice (actions_arr arrs) (index buf) (index buf + k) ac
             = Inr (put_rows (actions_arr arrs) (index buf) ac)"
    using assign_slice_fits [of "index buf" ac "actions_arr arrs"] assms
    by (simp add: arrays_shaped_def shape_def)
  have r: "assign_slice (rewards_arr arrs) (index buf) (index buf + k) rw
             = Inr (put_rows (rewards_arr arrs) (index buf) rw)"
    using assign_slice_fits [of "index buf" rw "rewards_arr arrs"] assms
    by (simp add: arrays_shaped_def shape_def)
  have d: "assign_slice (dones_arr arrs) (index buf) (index buf + k) dn
             = Inr (put_rows (dones_arr arrs) (index buf) dn)"
    using assign_slice_fits [of "index buf" dn "dones_arr arrs"] assms
    by (simp add: arrays_shaped_def shape_def)
  have k: "shape0 st = k" using assms(3) by (simp add: shape_def)
  show ?thesis
    by (simp add: push_unchecked_def Let_def assms(1) k s a r d bind_err_def)
qed

lemma slice_to_wrap:
  assumes "shape src = (l, actors)" and "idx \<le> cap" and "cap < idx + l"
  shows "slice_to src (int cap - int idx - int l) = NDArray actors (take (cap - idx) (rows src))"
    and "shape (slice_to src (int cap - int idx - int l)) = (cap - idx, actors)"
  using assms by (auto simp: slice_to_def shape_def shape0_def nat_diff_distrib)

lemma slice_from_wrap:
  assumes "shape src = (l, actors)" and "idx \<le> cap" and "cap < idx + l"
  shows "slice_from src (int cap - int idx - int l) = NDArray actors (drop (cap - idx) (rows src))"
    and "shape (slice_from src (int cap - int idx - int l)) = (l - (cap - idx), actors)"
  using assms by (auto simp: slice_from_def shape_def shape0_def nat_diff_distrib)

lemma wrapped_put_rows:
  assumes "shape old = (cap, actors)" and "shape src = (l, actors)"
      and "idx \<le> cap" and "l \<le> cap" and "cap < idx + l"
  shows "wrapped_rows cap idx
           (put_rows (put_rows old idx (slice_to src (int cap - int idx - int l))) 0
              (slice_from src (int cap - int idx - int l))) src"
proof -
  let ?first = "take (cap - idx) (rows src)"
  let ?rest = "drop (cap - idx) (rows src)"
  have lo: "length (rows old) = cap" and ls: "length (rows src) = l"
    using assms(1,2) by (simp_all add: shape_def shape0_def)
  have lf: "length ?first = cap - idx" and lr: "length ?rest = l - (cap - idx)"
    using ls assms(3,5) by simp_all
  have "drop (idx + length ?first) (rows old) = []"
    using lo lf assms(3) by simp
  then have mid: "rows (put_rows old idx (NDArray actors ?first)) = take idx (rows old) @ ?first"
    by (simp add: put_rows_def shape0_def)
  have "rows (put_rows (put_rows old idx (NDArray actors ?first)) 0 (NDArray actors ?rest))
               = ?rest @ drop (length ?rest) (take idx (rows old) @ ?first)"
    unfolding put_rows_def [of _ 0] shape0_def by (simp add: mid)
  then have fin: "rows (put_rows (put_rows old idx (NDArray actors ?first)) 0
                    (NDArray actors ?rest))
               = ?rest @ drop (l - (cap - idx)) (take idx (rows old) @ ?first)"
    unfolding lr .
  have k: "l - (cap - idx) \<le> idx"
    using assms(3,4) by simp
  have d: "drop idx (?rest @ drop (l - (cap - idx)) (take idx (rows old) @ ?first)) = ?first"
    using k lr lo assms(3) by simp
  have t: "take (l - (cap - idx)) (?rest @ drop (l - (cap - idx)) (take idx (rows old) @ ?first))
             = ?rest"
    using lr by simp
  show ?thesis
    unfolding wrapped_rows_def slice_to_wrap(1) [OF assms(2,3,5)]
      slice_from_wrap(1) [OF assms(2,3,5)] fin
    using d t lf ls by (simp add: shape0_def)
qed

lemma arrays_shaped_zeros:
  "arrays_shaped n actors
     \<lparr>states_arr = zeros n actors, actions_arr = zeros n actors,
      rewards_arr = zeros n actors, dones_arr = zeros n actors\<rparr>"
  by (simp add: arrays_shaped_def zeros_def shape_def shape0_def)

lemma push_wraps:
  assumes st: "storage buf = Some arrs"
      and sh: "arrays_shaped (capacity buf) actors arrs"
      and "shape st = (l, actors)" and "shape ac = (l, actors)"
      and "shape rw = (l, actors)" and "shape dn = (l, actors)"
      and "index buf \<le> capacity buf" and "l \<le> capacity buf"
      and "capacity buf < index buf + l"
      and n: "n = int (capacity buf) - int (index buf) - int l"
  shows "bind_err (push_unchecked buf (slice_to st n) (slice_to ac n) (slice_to rw n)
                     (slice_to dn n)) (\<lambda>buf2.
         bind_err (push_unchecked (buf2\<lparr>index := 0\<rparr>) (slice_from st n) (slice_from ac n)
                     (slice_from rw n) (slice_from dn n)) (\<lambda>buf3.
           Inr (buf3\<lparr>full_loop := True\<rparr>)))
         = Inr (buf\<lparr>storage := Some
                  \<lparr>states_arr = put_rows (put_rows (states_arr arrs) (index buf) (slice_to st n))
                                   0 (slice_from st n),
                   actions_arr = put_rows (put_rows (actions_arr arrs) (index buf) (slice_to ac n))
                                   0 (slice_from ac n),
                   rewards_arr = put_rows (put_rows (rewards_arr arrs) (index buf) (slice_to rw n))
                                   0 (slice_from rw n),
                   dones_arr = put_rows (put_rows (dones_arr arrs) (index buf) (slice_to dn n))
                                   0 (slice_from dn n)\<rparr>,
                index := l - (capacity buf - index buf), full_loop := True\<rparr>)"
proof -
  let ?k1 = "capacity buf - index buf"
  let ?arrs2 = "\<lparr>states_arr = put_rows (states_arr arrs) (index buf) (slice_to st n),
                 actions_arr = put_rows (actions_arr arrs) (index buf) (slice_to ac n),
                 rewards_arr = put_rows (rewards_arr arrs) (index buf) (slice_to rw n),
                 dones_arr = put_rows (dones_arr arrs) (index buf) (slice_to dn n)\<rparr>"
  let ?buf2 = "buf\<lparr>storage := Some ?arrs2, index := index buf + ?k1\<rparr>"
  have s1: "shape (slice_to st n) = (?k1, actors)" "shape (slice_to ac n) = (?k1, actors)"
           "shape (slice_to rw n) = (?k1, actors)" "shape (slice_to dn n) = (?k1, actors)"
    unfolding n using assms(3-7,9) by (simp_all add: slice_to_wrap(2))
  have s2: "shape (slice_from st n) = (l - ?k1, actors)"
           "shape (slice_from ac n) = (l - ?k1, actors)"
           "shape (slice_from rw n) = (l - ?k1, actors)"
           "shape (slice_from dn n) = (l - ?k1, actors)"
    unfolding n using assms(3-7,9) by (simp_all add: slice_from_wrap(2))
  have step1: "push_unchecked buf (slice_to st n) (slice_to ac n) (slice_to rw n) (slice_to dn n)
                 = Inr ?buf2"
    by (rule push_unchecked_fits [OF st sh s1]) (use assms(7) in simp)
  have sh2: "arrays_shaped (capacity buf) actors ?arrs2"
    unfolding arrays_shaped_def arrays.simps
    using sh assms(7)
    by (intro conjI shape_put_rows [OF _ s1(1)] shape_put_rows [OF _ s1(2)]
          shape_put_rows [OF _ s1(3)] shape_put_rows [OF _ s1(4)])
       (simp_all add: arrays_shaped_def)
  have step2: "push_unchecked (?buf2\<lparr>index := 0\<rparr>) (slice_from st n) (slice_from ac n)
                 (slice_from rw n) (slice_from dn n)
               = Inr (?buf2\<lparr>index := 0\<rparr>
                   \<lparr>storage := Some
                      \<lparr>states_arr = put_rows (states_arr ?arrs2) (index (?buf2\<lparr>index := 0\<rparr>))
                                       (slice_from st n),
                       actions_arr = put_rows (actions_arr ?arrs2) (index (?buf2\<lparr>index := 0\<rparr>))
                                       (slice_from ac n),
                       rewards_arr = put_rows (rewards_arr ?arrs2) (index (?buf2\<lparr>index := 0\<rparr>))
                                       (slice_from rw n),
                       dones_arr = put_rows (dones_arr ?arrs2) (index (?buf2\<lparr>index := 0\<rparr>))
                                       (slice_from dn n)\<rparr>,
                    index := index (?buf2\<lparr>index := 0\<rparr>) + (l - ?k1)\<rparr>)"
    by (rule push_unchecked_fits [OF _ sh2 s2]) (use assms(8) in simp_all)
  show ?thesis
    unfolding step1 bind_err_def sum.case step2 by simp
qed

text \<open>
  Claim C4. A rollout of length \<open>L\<close> with \<open>0 < L \<le> capacity\<close> is pushed into a buffer
  with write index \<open>idx\<close>, and \<open>idx + L > capacity\<close>. Then the push succeeds, the first
  \<open>capacity - idx\<close> incoming time slots are at the positions \<open>idx, ..., capacity - 1\<close>,
  the remaining \<open>L - (capacity - idx)\<close> time slots are at the positions from 0 on (the write
  pointer has wrapped to 0, and ends behind them), and \<^verbatim>\<open>full_loop\<close> is true. This holds
  for each of the four arrays. The rollout passes the assertions of \<^verbatim>\<open>push\<close> and has the
  actor count of the buffer.
\<close>

theorem push_wraps_around:
  assumes fits: "buffer_fits buf (shape1 st)"
      and shapes: "shape ac = shape st" "shape rw = shape st" "shape dn = shape st"
      and idx: "index buf \<le> capacity buf"
      and len: "0 < shape0 st" "shape0 st \<le> capacity buf"
      and over: "capacity buf < index buf + shape0 st"
  shows "\<exists>buf' arrs'. push buf st ac rw dn = Inr buf'
           \<and> storage buf' = Some arrs'
           \<and> wrapped_rows (capacity buf) (index buf) (states_arr arrs') st
           \<and> wrapped_rows (capacity buf) (index buf) (actions_arr arrs') ac
           \<and> wrapped_rows (capacity buf) (index buf) (rewards_arr arrs') rw
           \<and> wrapped_rows (capacity buf) (index buf) (dones_arr arrs') dn
           \<and> index buf' = shape0 st - (capacity buf - index buf)
           \<and> full_loop buf'
           \<and> capacity buf' = capacity buf"
proof -
  define l where "l = shape0 st"
  define actors where "actors = shape1 st"
  define n where "n = int (capacity buf) - int (index buf) - int l"
  define buf1 where "buf1 =
    (if storage buf = None
     then buf\<lparr>storage := Some \<lparr>states_arr = zeros (capacity buf) actors,
                                actions_arr = zeros (capacity buf) actors,
                                rewards_arr = zeros (capacity buf) actors,
                                dones_arr = zeros (capacity buf) actors\<rparr>\<rparr>
     else buf)"
  have sh: "shape st = (l, actors)" "shape ac = (l, actors)"
           "shape rw = (l, actors)" "shape dn = (l, actors)"
    using shapes by (simp_all add: l_def actors_def shape_def)
  have b1: "capacity buf1 = capacity buf" "index buf1 = index buf"
    by (simp_all add: buf1_def)
  obtain arrs where st1: "storage buf1 = Some arrs"
    and sh1: "arrays_shaped (capacity buf1) actors arrs"
  proof (cases "storage buf")
    case None
    then show ?thesis
      using that [of "\<lparr>states_arr = zeros (capacity buf) actors,
                      actions_arr = zeros (capacity buf) actors,
                      rewards_arr = zeros (capacity buf) actors,
                      dones_arr = zeros (capacity buf) actors\<rparr>"]
      by (simp add: buf1_def arrays_shaped_zeros)
  next
    case (Some a)
    then show ?thesis
      using that [of a] fits by (simp add: buf1_def buffer_fits_def actors_def)
  qed
  have p: "push buf st ac rw dn =
             bind_err (push_unchecked buf1 (slice_to st n) (slice_to ac n) (slice_to rw n)
                         (slice_to dn n)) (\<lambda>buf2.
             bind_err (push_unchecked (buf2\<lparr>index := 0\<rparr>) (slice_from st n) (slice_from ac n)
                         (slice_from rw n) (slice_from dn n)) (\<lambda>buf3.
               Inr (buf3\<lparr>full_loop := True\<rparr>)))"
    using over shapes
    by (simp add: push_def Let_def buf1_def n_def l_def actors_def)
  have n1: "n = int (capacity buf1) - int (index buf1) - int l"
    by (simp add: n_def b1)
  have w: "push buf st ac rw dn =
             Inr (buf1\<lparr>storage := Some
                  \<lparr>states_arr = put_rows (put_rows (states_arr arrs) (index buf1) (slice_to st n))
                                   0 (slice_from st n),
                   actions_arr = put_rows (put_rows (actions_arr arrs) (index buf1) (slice_to ac n))
                                   0 (slice_from ac n),
                   rewards_arr = put_rows (put_rows (rewards_arr arrs) (index buf1) (slice_to rw n))
                                   0 (slice_from rw n),
                   dones_arr = put_rows (put_rows (dones_arr arrs) (index buf1) (slice_to dn n))
                                   0 (slice_from dn n)\<rparr>,
                index := l - (capacity buf1 - index buf1), full_loop := True\<rparr>)"
    unfolding p
    by (rule push_wraps [OF st1 sh1 sh _ _ _ n1]) (use idx len over in \<open>simp_all add: b1 l_def\<close>)
  have old: "shape (states_arr arrs) = (capacity buf, actors)"
            "shape (actions_arr arrs) = (capacity buf, actors)"
            "shape (rewards_arr arrs) = (capacity buf, actors)"
            "shape (dones_arr arrs) = (capacity buf, actors)"
    using sh1 by (simp_all add: arrays_shaped_def b1)
  have l: "l \<le> capacity buf" "capacity buf < index buf + l"
    using len over by (simp_all add: l_def)
  have ws: "wrapped_rows (capacity buf) (index buf)
              (put_rows (put_rows (states_arr arrs) (index buf) (slice_to st n)) 0
                 (slice_from st n)) st"
    unfolding n_def by (rule wrapped_put_rows [OF old(1) sh(1) idx l])
  have wa: "wrapped_rows (capacity buf) (index buf)
              (put_rows (put_rows (actions_arr arrs) (index buf) (slice_to ac n)) 0
                 (slice_from ac n)) ac"
    unfolding n_def by (rule wrapped_put_rows [OF old(2) sh(2) idx l])
  have wr: "wrapped_rows (capacity buf) (index buf)
              (put_rows (put_rows (rewards_arr arrs) (index buf) (slice_to rw n)) 0
                 (slice_from rw n)) rw"
    unfolding n_def by (rule wrapped_put_rows [OF old(3) sh(3) idx l])
  have wd: "wrapped_rows (capacity buf) (index buf)
              (put_rows (put_rows (dones_arr arrs) (index buf) (slice_to dn n)) 0
                 (slice_from dn n)) dn"
    unfolding n_def by (rule wrapped_put_rows [OF old(4) sh(4) idx l])
  show ?thesis
    unfolding w using ws wa wr wd by (simp add: b1 l_def)
qed

theorem push_wraps_around_witness:
  "buffer_fits buffer_a (shape1 rollout_b)
   \<and> index buffer_a \<le> capacity buffer_a
   \<and> 0 < shape0 rollout_b \<and> shape0 rollout_b \<le> capacity buffer_a
   \<and> capacity buffer_a < index buffer_a + shape0 rollout_b
   \<and> (\<exists>buf' arrs'. push buffer_a rollout_b rollout_b rollout_b rollout_b = Inr buf'
         \<and> storage buf' = Some arrs'
         \<and> wrapped_rows 4 3 (states_arr arrs') rollout_b
         \<and> index buf' = 2 \<and> full_loop buf')"
proof -
  have f: "buffer_fits buffer_a (shape1 rollout_b)"
    by (simp add: buffer_fits_def buffer_a_def rollout_b_def arrays_shaped_def shape_def
        shape0_def)
  have i: "index buffer_a = 3" "capacity buffer_a = 4" "shape0 rollout_b = 3"
    by (simp_all add: buffer_a_def rollout_b_def shape0_def)
  show ?thesis
    using push_wraps_around [of buffer_a rollout_b rollout_b rollout_b rollout_b] f
    by (simp add: i) blast
qed

lemma broadcast_to_props:
  assumes "broadcast_to m actors src = Inr mid" and "wf_ndarray src"
  shows "length mid = m"
    and "\<forall>row \<in> set mid. set row \<subseteq> cells src \<and> length row = actors"
proof -
  define rs where "rs = (if shape1 src = actors then rows src
                         else map (\<lambda>row. replicate actors (hd row)) (rows src))"
  have c: "(shape0 src = m \<or> shape0 src = 1) \<and> (shape1 src = actors \<or> shape1 src = 1)"
    using assms(1) by (auto simp: broadcast_to_def split: if_splits)
  have mid: "mid = (if length rs = m then rs else replicate m (hd rs))"
    using assms(1) c by (auto simp: broadcast_to_def rs_def Let_def split: if_splits)
  have lrs: "length rs = shape0 src"
    by (simp add: rs_def shape0_def)
  have wf: "\<And>row. row \<in> set (rows src) \<Longrightarrow> length row = shape1 src"
    using assms(2) by (simp add: wf_ndarray_def list_all_iff)
  have rs: "\<forall>row \<in> set rs. set row \<subseteq> cells src \<and> length row = actors"
  proof (cases "shape1 src = actors")
    case True
    then show ?thesis using wf by (auto simp: rs_def cells_def)
  next
    case False
    with c have one: "shape1 src = 1" by simp
    have "set (replicate actors (hd row)) \<subseteq> set row" if "row \<in> set (rows src)" for row
    proof -
      from wf [OF that] one have "length row = 1" by simp
      then obtain x where "row = [x]" by (cases row) auto
      then show ?thesis by auto
    qed
    with False show ?thesis by (auto simp: rs_def cells_def)
  qed
  show "length mid = m"
    by (simp add: mid)
  show "\<forall>row \<in> set mid. set row \<subseteq> cells src \<and> length row = actors"
  proof (cases "length rs = m")
    case True
    with rs mid show ?thesis by simp
  next
    case False
    with c lrs have "length rs = 1" by simp
    then obtain x where x: "rs = [x]" by (cases rs) auto
    with rs have "set x \<subseteq> cells src \<and> length x = actors" by simp
    with False mid x show ?thesis by auto
  qed
qed

lemma assign_slice_rows:
  assumes "assign_slice dst a b src = Inr new" and "wf_ndarray src"
  shows "\<exists>mid. rows new = take (min a (shape0 dst)) (rows dst) @ mid
                   @ drop (max (min a (shape0 dst)) (min b (shape0 dst))) (rows dst)
           \<and> length mid = max (min a (shape0 dst)) (min b (shape0 dst)) - min a (shape0 dst)
           \<and> (\<forall>row \<in> set mid. set row \<subseteq> cells src \<and> length row = shape1 dst)"
    and "shape1 new = shape1 dst"
proof -
  let ?lo = "min a (shape0 dst)"
  let ?hi = "max ?lo (min b (shape0 dst))"
  obtain mid where b: "broadcast_to (?hi - ?lo) (shape1 dst) src = Inr mid"
    and n: "new = NDArray (shape1 dst) (take ?lo (rows dst) @ mid @ drop ?hi (rows dst))"
    using assms(1) by (auto simp: assign_slice_def Let_def split: sum.splits)
  from broadcast_to_props [OF b assms(2)] n
  show "\<exists>mid. rows new = take ?lo (rows dst) @ mid @ drop ?hi (rows dst)
           \<and> length mid = ?hi - ?lo
           \<and> (\<forall>row \<in> set mid. set row \<subseteq> cells src \<and> length row = shape1 dst)"
    by auto
  show "shape1 new = shape1 dst" using n by simp
qed

lemma assign_slice_shape:
  assumes "assign_slice dst a b src = Inr new" and "wf_ndarray src"
  shows "shape new = shape dst" and "wf_ndarray dst \<Longrightarrow> wf_ndarray new"
proof -
  let ?lo = "min a (shape0 dst)"
  let ?hi = "max ?lo (min b (shape0 dst))"
  from assign_slice_rows [OF assms] obtain mid where
    r: "rows new = take ?lo (rows dst) @ mid @ drop ?hi (rows dst)"
    and l: "length mid = ?hi - ?lo"
    and m: "\<forall>row \<in> set mid. set row \<subseteq> cells src \<and> length row = shape1 dst"
    and s1: "shape1 new = shape1 dst"
    by blast
  have "length (rows new) = length (rows dst)"
    unfolding r using l by (simp add: shape0_def)
  then show "shape new = shape dst"
    using s1 by (simp add: shape_def shape0_def)
  show "wf_ndarray new" if "wf_ndarray dst"
    using that m unfolding wf_ndarray_def list_all_iff r s1
    by (auto dest: in_set_takeD in_set_dropD)
qed

lemma assign_slice_within_all:
  assumes "assign_slice dst a b src = Inr new" and "wf_ndarray src"
      and "rows_within (shape0 dst) P dst" and "cells src \<subseteq> P"
  shows "rows_within (shape0 dst) P new"
proof -
  let ?lo = "min a (shape0 dst)"
  let ?hi = "max ?lo (min b (shape0 dst))"
  from assign_slice_rows [OF assms(1,2)] obtain mid where
    r: "rows new = take ?lo (rows dst) @ mid @ drop ?hi (rows dst)"
    and m: "\<forall>row \<in> set mid. set row \<subseteq> cells src \<and> length row = shape1 dst"
    by blast
  have old: "\<forall>row \<in> set (rows dst). set row \<subseteq> P"
    using assms(3) unfolding rows_within_def shape0_def
    by (metis in_set_conv_nth)
  have "\<forall>row \<in> set (rows new). set row \<subseteq> P"
    unfolding r using old m assms(4) by (auto dest: in_set_takeD in_set_dropD)
  moreover have "length (rows new) = shape0 dst"
    using assign_slice_shape(1) [OF assms(1,2)] by (simp add: shape_def shape0_def)
  ultimately show ?thesis
    unfolding rows_within_def by simp
qed

lemma assign_slice_within_prefix:
  assumes "assign_slice dst a (a + k) src = Inr new" and "wf_ndarray src"
      and "rows_within a P dst" and "cells src \<subseteq> P" and "a + k \<le> shape0 dst"
  shows "rows_within (a + k) P new"
proof -
  let ?lo = "min a (shape0 dst)"
  let ?hi = "max ?lo (min (a + k) (shape0 dst))"
  have lo: "?lo = a" and hi: "?hi = a + k"
    using assms(5) by simp_all
  from assign_slice_rows(1) [OF assms(1,2)] obtain mid where
    r0: "rows new = take ?lo (rows dst) @ mid @ drop ?hi (rows dst)"
    and l0: "length mid = ?hi - ?lo"
    and m: "\<forall>row \<in> set mid. set row \<subseteq> cells src \<and> length row = shape1 dst"
    by blast
  have m1: "min a (shape0 dst) = a" and m2: "max a (min (a + k) (shape0 dst)) = a + k"
    using assms(5) by simp_all
  have r: "rows new = take a (rows dst) @ mid @ drop (a + k) (rows dst)"
    using r0 by (simp only: m1 m2)
  have l: "length mid = k"
    using l0 by (simp only: m1 m2 add_diff_cancel_left')
  have la: "length (take a (rows dst)) = a"
    using assms(5) by (simp add: shape0_def)
  show ?thesis
    unfolding rows_within_def
  proof (intro allI impI)
    fix p assume p: "p < a + k"
    show "set (rows new ! p) \<subseteq> P"
    proof (cases "p < a")
      case True
      then have "rows new ! p = rows dst ! p"
        unfolding r using la by (simp add: nth_append)
      with assms(3) True show ?thesis by (simp add: rows_within_def)
    next
      case False
      from False p have pk: "p - a < k" by arith
      have "rows new ! p = (mid @ drop (a + k) (rows dst)) ! (p - a)"
        unfolding r using la False by (simp only: nth_append if_False)
      also have "\<dots> = mid ! (p - a)"
        using pk l by (simp only: nth_append if_True)
      finally have "rows new ! p = mid ! (p - a)" .
      moreover have "mid ! (p - a) \<in> set mid"
        using pk l by simp
      ultimately show ?thesis using m assms(4) by auto
    qed
  qed
qed

lemma push_unchecked_result:
  assumes "push_unchecked buf st ac rw dn = Inr buf'"
  obtains arrs st' ac' rw' dn' where
    "storage buf = Some arrs"
    "assign_slice (states_arr arrs) (index buf) (index buf + shape0 st) st = Inr st'"
    "assign_slice (actions_arr arrs) (index buf) (index buf + shape0 st) ac = Inr ac'"
    "assign_slice (rewards_arr arrs) (index buf) (index buf + shape0 st) rw = Inr rw'"
    "assign_slice (dones_arr arrs) (index buf) (index buf + shape0 st) dn = Inr dn'"
    "buf' = buf\<lparr>storage := Some \<lparr>states_arr = st', actions_arr = ac',
                                    rewards_arr = rw', dones_arr = dn'\<rparr>,
                  index := index buf + shape0 st\<rparr>"
  using assms
  by (auto simp: push_unchecked_def Let_def bind_err_def split: option.splits sum.splits)

lemma rows_within_mono:
  "rows_within v P arr \<Longrightarrow> P \<subseteq> Q \<Longrightarrow> rows_within v Q arr"
  by (auto simp: rows_within_def)

lemma push_unchecked_keeps:
  assumes r: "push_unchecked buf st ac rw dn = Inr buf'"
      and s: "storage buf = Some arrs"
      and sh: "arrays_shaped n actors arrs" and wf: "arrays_wf arrs"
      and wfi: "wf_ndarray st" "wf_ndarray ac" "wf_ndarray rw" "wf_ndarray dn"
      and ci: "cells st \<subseteq> pushed_states hist" "cells ac \<subseteq> pushed_actions hist"
              "cells rw \<subseteq> pushed_rewards hist" "cells dn \<subseteq> pushed_dones hist"
  shows "\<exists>arrs'. storage buf' = Some arrs' \<and> arrays_shaped n actors arrs' \<and> arrays_wf arrs'
           \<and> index buf' = index buf + shape0 st \<and> capacity buf' = capacity buf
           \<and> full_loop buf' = full_loop buf
           \<and> (arrays_within n hist arrs \<longrightarrow> arrays_within n hist arrs')
           \<and> (arrays_within (index buf) hist arrs \<and> index buf + shape0 st \<le> n
                \<longrightarrow> arrays_within (index buf + shape0 st) hist arrs')"
proof -
  from r s obtain st' ac' rw' dn' where
    a: "assign_slice (states_arr arrs) (index buf) (index buf + shape0 st) st = Inr st'"
       "assign_slice (actions_arr arrs) (index buf) (index buf + shape0 st) ac = Inr ac'"
       "assign_slice (rewards_arr arrs) (index buf) (index buf + shape0 st) rw = Inr rw'"
       "assign_slice (dones_arr arrs) (index buf) (index buf + shape0 st) dn = Inr dn'"
    and b: "buf' = buf\<lparr>storage := Some \<lparr>states_arr = st', actions_arr = ac',
                                          rewards_arr = rw', dones_arr = dn'\<rparr>,
                        index := index buf + shape0 st\<rparr>"
    by (auto elim!: push_unchecked_result)
  let ?arrs' = "\<lparr>states_arr = st', actions_arr = ac', rewards_arr = rw', dones_arr = dn'\<rparr>"
  have n: "shape0 (states_arr arrs) = n" "shape0 (actions_arr arrs) = n"
          "shape0 (rewards_arr arrs) = n" "shape0 (dones_arr arrs) = n"
    using sh by (simp_all add: arrays_shaped_def shape_def)
  have shp: "arrays_shaped n actors ?arrs'"
    using sh assign_slice_shape(1) [OF a(1) wfi(1)] assign_slice_shape(1) [OF a(2) wfi(2)]
      assign_slice_shape(1) [OF a(3) wfi(3)] assign_slice_shape(1) [OF a(4) wfi(4)]
    by (simp add: arrays_shaped_def)
  have wf': "arrays_wf ?arrs'"
    using wf assign_slice_shape(2) [OF a(1) wfi(1)] assign_slice_shape(2) [OF a(2) wfi(2)]
      assign_slice_shape(2) [OF a(3) wfi(3)] assign_slice_shape(2) [OF a(4) wfi(4)]
    by (simp add: arrays_wf_def)
  have all: "arrays_within n hist ?arrs'" if "arrays_within n hist arrs"
    using that
      assign_slice_within_all [OF a(1) wfi(1) _ ci(1)]
      assign_slice_within_all [OF a(2) wfi(2) _ ci(2)]
      assign_slice_within_all [OF a(3) wfi(3) _ ci(3)]
      assign_slice_within_all [OF a(4) wfi(4) _ ci(4)]
    by (simp add: arrays_within_def n)
  have pre: "arrays_within (index buf + shape0 st) hist ?arrs'"
    if "arrays_within (index buf) hist arrs" and "index buf + shape0 st \<le> n"
    using that
      assign_slice_within_prefix [OF a(1) wfi(1) _ ci(1)]
      assign_slice_within_prefix [OF a(2) wfi(2) _ ci(2)]
      assign_slice_within_prefix [OF a(3) wfi(3) _ ci(3)]
      assign_slice_within_prefix [OF a(4) wfi(4) _ ci(4)]
    by (simp add: arrays_within_def n)
  show ?thesis
    using shp wf' all pre by (intro exI [of _ ?arrs']) (simp add: b)
qed

lemma wf_slices:
  assumes "wf_ndarray arr"
  shows "wf_ndarray (slice_to arr n)" and "wf_ndarray (slice_from arr n)"
  using assms
  by (auto simp: wf_ndarray_def list_all_iff slice_to_def slice_from_def
      dest: in_set_takeD in_set_dropD)

lemma cells_slices:
  "cells (slice_to arr n) \<subseteq> cells arr" "cells (slice_from arr n) \<subseteq> cells arr"
  by (auto simp: cells_def slice_to_def slice_from_def dest: in_set_takeD in_set_dropD)

lemma pushed_append:
  "pushed_states (hist @ [(st, ac, rw, dn)]) = pushed_states hist \<union> cells st"
  "pushed_actions (hist @ [(st, ac, rw, dn)]) = pushed_actions hist \<union> cells ac"
  "pushed_rewards (hist @ [(st, ac, rw, dn)]) = pushed_rewards hist \<union> cells rw"
  "pushed_dones (hist @ [(st, ac, rw, dn)]) = pushed_dones hist \<union> cells dn"
  by (auto simp: pushed_states_def pushed_actions_def pushed_rewards_def pushed_dones_def)

lemma arrays_within_append:
  "arrays_within v hist arrs \<Longrightarrow> arrays_within v (hist @ [(st, ac, rw, dn)]) arrs"
  unfolding arrays_within_def pushed_append
  by (auto intro: rows_within_mono)

lemma arrays_within_zero: "arrays_within 0 hist arrs"
  by (simp add: arrays_within_def rows_within_def)

lemma arrays_wf_zeros:
  "arrays_wf \<lparr>states_arr = zeros n actors, actions_arr = zeros n actors,
              rewards_arr = zeros n actors, dones_arr = zeros n actors\<rparr>"
  by (simp add: arrays_wf_def wf_ndarray_def zeros_def list_all_iff)

lemma push_inv:
  assumes inv: "buffer_inv cap hist buf"
      and wfi: "wf_ndarray st" "wf_ndarray ac" "wf_ndarray rw" "wf_ndarray dn"
      and p: "push buf st ac rw dn = Inr buf'"
  shows "buffer_inv cap (hist @ [(st, ac, rw, dn)]) buf'"
proof -
  let ?hist = "hist @ [(st, ac, rw, dn)]"
  define actors0 where "actors0 = shape1 st"
  define buf1 where "buf1 =
    (if storage buf = None
     then buf\<lparr>storage := Some \<lparr>states_arr = zeros (capacity buf) actors0,
                                actions_arr = zeros (capacity buf) actors0,
                                rewards_arr = zeros (capacity buf) actors0,
                                dones_arr = zeros (capacity buf) actors0\<rparr>\<rparr>
     else buf)"
  define n where "n = int (capacity buf1) - int (index buf1) - int (shape0 st)"
  have cap: "capacity buf = cap" and idx: "\<not> full_loop buf \<Longrightarrow> index buf \<le> cap"
    using inv by (simp_all add: buffer_inv_def)
  have b1: "capacity buf1 = cap" "index buf1 = index buf" "full_loop buf1 = full_loop buf"
    using cap by (simp_all add: buf1_def)
  have shapes: "shape rw = shape dn" "shape rw = shape st" "shape rw = shape ac"
    using p by (auto simp: push_def split: if_splits)
  have p1: "push buf st ac rw dn =
     (if index buf1 + shape0 st \<le> capacity buf1
      then push_unchecked buf1 st ac rw dn
      else bind_err (push_unchecked buf1 (slice_to st n) (slice_to ac n) (slice_to rw n)
                       (slice_to dn n)) (\<lambda>buf2.
           bind_err (push_unchecked (buf2\<lparr>index := 0\<rparr>) (slice_from st n) (slice_from ac n)
                       (slice_from rw n) (slice_from dn n)) (\<lambda>buf3.
             Inr (buf3\<lparr>full_loop := True\<rparr>))))"
    using shapes by (simp add: push_def Let_def buf1_def n_def actors0_def)
  obtain arrs actors where s1: "storage buf1 = Some arrs"
    and sh1: "arrays_shaped cap actors arrs" and wf1: "arrays_wf arrs"
    and w1: "arrays_within (valid_range buf) ?hist arrs"
  proof (cases "storage buf")
    case None
    then have "valid_range buf = 0"
      using inv by (simp add: buffer_inv_def valid_range_def)
    with None show ?thesis
      using that [of "\<lparr>states_arr = zeros (capacity buf) actors0,
                      actions_arr = zeros (capacity buf) actors0,
                      rewards_arr = zeros (capacity buf) actors0,
                      dones_arr = zeros (capacity buf) actors0\<rparr>" actors0] cap
      by (simp add: buf1_def arrays_shaped_zeros arrays_wf_zeros arrays_within_zero)
  next
    case (Some a)
    with inv obtain actors where "arrays_shaped cap actors a" "arrays_wf a"
      "arrays_within (valid_range buf) hist a"
      by (auto simp: buffer_inv_def)
    with Some show ?thesis
      using that [of a actors] by (simp add: buf1_def arrays_within_append)
  qed
  have ci: "cells st \<subseteq> pushed_states ?hist" "cells ac \<subseteq> pushed_actions ?hist"
           "cells rw \<subseteq> pushed_rewards ?hist" "cells dn \<subseteq> pushed_dones ?hist"
    by (simp_all add: pushed_append)
  show ?thesis
  proof (cases "index buf1 + shape0 st \<le> capacity buf1")
    case True
    with p p1 have r: "push_unchecked buf1 st ac rw dn = Inr buf'" by simp
    from push_unchecked_keeps [OF r s1 sh1 wf1 wfi ci] obtain arrs' where
      k: "storage buf' = Some arrs'" "arrays_shaped cap actors arrs'" "arrays_wf arrs'"
         "index buf' = index buf1 + shape0 st" "capacity buf' = capacity buf1"
         "full_loop buf' = full_loop buf1"
         "arrays_within cap ?hist arrs \<longrightarrow> arrays_within cap ?hist arrs'"
         "arrays_within (index buf1) ?hist arrs \<and> index buf1 + shape0 st \<le> cap
            \<longrightarrow> arrays_within (index buf1 + shape0 st) ?hist arrs'"
      by blast
    have "arrays_within (valid_range buf') ?hist arrs'"
    proof (cases "full_loop buf")
      case True
      then show ?thesis
        using k w1 b1 cap by (simp add: valid_range_def)
    next
      case False
      then show ?thesis
        using k w1 b1 cap True by (simp add: valid_range_def)
    qed
    then show ?thesis
      using k b1 True by (auto simp: buffer_inv_def)
  next
    case False
    with p p1 obtain buf2 buf3 where
      r1: "push_unchecked buf1 (slice_to st n) (slice_to ac n) (slice_to rw n) (slice_to dn n)
             = Inr buf2"
      and r2: "push_unchecked (buf2\<lparr>index := 0\<rparr>) (slice_from st n) (slice_from ac n)
             (slice_from rw n) (slice_from dn n) = Inr buf3"
      and b': "buf' = buf3\<lparr>full_loop := True\<rparr>"
      by (auto simp: bind_err_def split: sum.splits)
    have ci1: "cells (slice_to st n) \<subseteq> pushed_states ?hist"
              "cells (slice_to ac n) \<subseteq> pushed_actions ?hist"
              "cells (slice_to rw n) \<subseteq> pushed_rewards ?hist"
              "cells (slice_to dn n) \<subseteq> pushed_dones ?hist"
      by (rule subset_trans [OF cells_slices(1) ci(1)],
          rule subset_trans [OF cells_slices(1) ci(2)],
          rule subset_trans [OF cells_slices(1) ci(3)],
          rule subset_trans [OF cells_slices(1) ci(4)])
    have ci2: "cells (slice_from st n) \<subseteq> pushed_states ?hist"
              "cells (slice_from ac n) \<subseteq> pushed_actions ?hist"
              "cells (slice_from rw n) \<subseteq> pushed_rewards ?hist"
              "cells (slice_from dn n) \<subseteq> pushed_dones ?hist"
      by (rule subset_trans [OF cells_slices(2) ci(1)],
          rule subset_trans [OF cells_slices(2) ci(2)],
          rule subset_trans [OF cells_slices(2) ci(3)],
          rule subset_trans [OF cells_slices(2) ci(4)])
    from push_unchecked_keeps [OF r1 s1 sh1 wf1 wf_slices(1) [OF wfi(1)] wf_slices(1) [OF wfi(2)]
        wf_slices(1) [OF wfi(3)] wf_slices(1) [OF wfi(4)] ci1]
    obtain arrs2 where
      k2: "storage buf2 = Some arrs2" "arrays_shaped cap actors arrs2" "arrays_wf arrs2"
          "arrays_within cap ?hist arrs \<longrightarrow> arrays_within cap ?hist arrs2"
          "arrays_within (index buf1) ?hist arrs
             \<and> index buf1 + shape0 (slice_to st n) \<le> cap
             \<longrightarrow> arrays_within (index buf1 + shape0 (slice_to st n)) ?hist arrs2"
          "capacity buf2 = capacity buf1"
      by blast
    have full2: "arrays_within cap ?hist arrs2"
    proof (cases "full_loop buf")
      case True
      then show ?thesis using k2 w1 cap by (simp add: valid_range_def)
    next
      case nf: False
      from idx [OF nf] have i: "index buf \<le> cap" .
      have "shape (slice_to st n) = (cap - index buf, shape1 st)"
        unfolding n_def b1
        by (rule slice_to_wrap(2)) (use False i b1 in \<open>simp_all add: shape_def\<close>)
      then have "shape0 (slice_to st n) = cap - index buf"
        by (simp add: shape_def)
      with i nf k2 w1 b1 show ?thesis by (simp add: valid_range_def)
    qed
    have s2: "storage (buf2\<lparr>index := 0\<rparr>) = Some arrs2"
      using k2 by simp
    from push_unchecked_keeps [OF r2 s2 k2(2,3) wf_slices(2) [OF wfi(1)] wf_slices(2) [OF wfi(2)]
        wf_slices(2) [OF wfi(3)] wf_slices(2) [OF wfi(4)] ci2]
    obtain arrs3 where
      k3: "storage buf3 = Some arrs3" "arrays_shaped cap actors arrs3" "arrays_wf arrs3"
          "arrays_within cap ?hist arrs2 \<longrightarrow> arrays_within cap ?hist arrs3"
          "capacity buf3 = capacity (buf2\<lparr>index := 0\<rparr>)"
      by blast
    show ?thesis
      using k3 k2(6) full2 b1 by (auto simp: buffer_inv_def b' valid_range_def)
  qed
qed

lemma reachable_inv:
  "reachable cap hist buf \<Longrightarrow> buffer_inv cap hist buf"
proof (induction rule: reachable.induct)
  case (reachable_init cap)
  then show ?case by (simp add: buffer_inv_def ReplayBuffer_init_def)
next
  case (reachable_push cap hist buf st ac rw dn buf')
  then show ?case by (intro push_inv)
qed

lemma get_window_length:
  assumes "rand_h + horizon \<le> shape0 arr"
  shows "length (get_window arr rand_h horizon rand_r) = horizon"
  using assms by (simp add: get_window_def shape0_def)

lemma get_window_within:
  assumes "rand_h + horizon \<le> v" and "v \<le> shape0 arr" and "rand_r < shape1 arr"
      and "wf_ndarray arr" and "rows_within v P arr"
  shows "set (get_window arr rand_h horizon rand_r) \<subseteq> P"
proof
  fix x assume "x \<in> set (get_window arr rand_h horizon rand_r)"
  then obtain row where row: "row \<in> set (take horizon (drop rand_h (rows arr)))"
    and x: "x = row ! rand_r"
    by (auto simp: get_window_def)
  from row obtain t where t: "t < horizon" "t < length (drop rand_h (rows arr))"
    and r: "row = drop rand_h (rows arr) ! t"
    by (auto simp: in_set_conv_nth)
  have p: "rand_h + t < v" using t(1) assms(1) by simp
  have r': "row = rows arr ! (rand_h + t)"
    using r t(2) by simp
  have "rand_h + t < length (rows arr)"
    using p assms(2) by (simp add: shape0_def)
  then have "row \<in> set (rows arr)"
    using r' by simp
  then have "length row = shape1 arr"
    using assms(4) by (simp add: wf_ndarray_def list_all_iff)
  then have "x \<in> set row"
    using x assms(3) by simp
  moreover have "set row \<subseteq> P"
    using assms(5) p r' by (simp add: rows_within_def)
  ultimately show "x \<in> P" by blast
qed

lemma set_column_fits:
  assumes "length w = shape0 dst" and "wf_ndarray dst" and "ri < shape1 dst"
  shows "\<exists>new. set_column dst ri w = Inr new \<and> shape new = shape dst \<and> wf_ndarray new
           \<and> column new ri = w \<and> (\<forall>c. c \<noteq> ri \<longrightarrow> column new c = column dst c)"
proof -
  let ?new = "NDArray (shape1 dst) (map2 (\<lambda>row v. row[ri := v]) (rows dst) w)"
  have l: "length (rows dst) = length w"
    using assms(1) by (simp add: shape0_def)
  have len: "\<And>row. row \<in> set (rows dst) \<Longrightarrow> length row = shape1 dst"
    using assms(2) by (simp add: wf_ndarray_def list_all_iff)
  have e: "set_column dst ri w = Inr ?new"
    using assms(1) by (simp add: set_column_def)
  have s: "shape ?new = shape dst"
    using l by (simp add: shape_def shape0_def)
  have wf: "wf_ndarray ?new"
    using len by (auto simp: wf_ndarray_def list_all_iff dest: set_zip_leftD)
  have c1: "column ?new ri = w"
  proof (rule nth_equalityI)
    show "length (column ?new ri) = length w"
      using l by (simp add: column_def)
    fix i assume "i < length (column ?new ri)"
    then have i: "i < length w" "i < length (rows dst)"
      using l by (simp_all add: column_def)
    then have "ri < length (rows dst ! i)"
      using len assms(3) by simp
    with i show "column ?new ri ! i = w ! i"
      by (simp add: column_def)
  qed
  have c2: "column ?new c = column dst c" if "c \<noteq> ri" for c
  proof (rule nth_equalityI)
    show "length (column ?new c) = length (column dst c)"
      using l by (simp add: column_def)
    fix i assume "i < length (column ?new c)"
    then have i: "i < length w" "i < length (rows dst)"
      using l by (simp_all add: column_def)
    with that show "column ?new c ! i = column dst c ! i"
      by (simp add: column_def)
  qed
  show ?thesis
    using e s wf c1 c2 by blast
qed

lemma randint_result:
  assumes "randint high raw = Inr x"
  shows "0 < high" and "int x < high"
proof -
  from assms show h: "0 < high"
    by (auto simp: randint_def split: if_splits)
  from assms h have x: "x = raw mod nat high"
    by (auto simp: randint_def split: if_splits)
  from h have "0 < nat high" by simp
  then have "raw mod nat high < nat high" by (rule mod_less_divisor)
  with h show "int x < high" unfolding x by linarith
qed

lemma sample_body_result:
  assumes sh: "arrays_shaped n actors arrs" and v: "valid_range buf \<le> n"
      and os: "arrays_shaped horizon rollouts out" and ow: "arrays_wf out"
      and ri: "ri < rollouts"
      and b: "sample_body buf arrs rnd horizon ri out = Inr out'"
  shows "\<exists>rand_r rand_h. draw_actor arrs rnd ri = Inr rand_r
           \<and> draw_start buf rnd horizon ri = Inr rand_h
           \<and> arrays_shaped horizon rollouts out' \<and> arrays_wf out'
           \<and> window_at out' ri arrs rand_h horizon rand_r
           \<and> (\<forall>c. c \<noteq> ri \<longrightarrow> columns_eq out' out c)"
proof -
  from b obtain rand_r where da: "draw_actor arrs rnd ri = Inr rand_r"
    by (cases "draw_actor arrs rnd ri") (simp_all add: sample_body_def bind_err_def)
  from b da obtain rand_h where ds: "draw_start buf rnd horizon ri = Inr rand_h"
    by (cases "draw_start buf rnd horizon ri") (simp_all add: sample_body_def bind_err_def)
  have "int rand_h < int (valid_range buf) - int horizon"
    using randint_result(2) [OF ds [unfolded draw_start_def]] .
  then have hn: "rand_h + horizon \<le> n"
    using v by linarith
  have n: "shape0 (states_arr arrs) = n" "shape0 (actions_arr arrs) = n"
          "shape0 (rewards_arr arrs) = n" "shape0 (dones_arr arrs) = n"
    using sh by (simp_all add: arrays_shaped_def shape_def)
  have o: "shape0 (states_arr out) = horizon" "shape0 (actions_arr out) = horizon"
          "shape0 (rewards_arr out) = horizon" "shape0 (dones_arr out) = horizon"
          "shape1 (states_arr out) = rollouts" "shape1 (actions_arr out) = rollouts"
          "shape1 (rewards_arr out) = rollouts" "shape1 (dones_arr out) = rollouts"
    using os by (simp_all add: arrays_shaped_def shape_def)
  have w: "wf_ndarray (states_arr out)" "wf_ndarray (actions_arr out)"
          "wf_ndarray (rewards_arr out)" "wf_ndarray (dones_arr out)"
    using ow by (simp_all add: arrays_wf_def)
  from set_column_fits [of "get_window (states_arr arrs) rand_h horizon rand_r"
      "states_arr out" ri]
  obtain st' where st': "set_column (states_arr out) ri
        (get_window (states_arr arrs) rand_h horizon rand_r) = Inr st'"
      "shape st' = shape (states_arr out)" "wf_ndarray st'"
      "column st' ri = get_window (states_arr arrs) rand_h horizon rand_r"
      "\<forall>c. c \<noteq> ri \<longrightarrow> column st' c = column (states_arr out) c"
    using hn n o w ri by (auto simp: get_window_length)
  from set_column_fits [of "get_window (actions_arr arrs) rand_h horizon rand_r"
      "actions_arr out" ri]
  obtain ac' where ac': "set_column (actions_arr out) ri
        (get_window (actions_arr arrs) rand_h horizon rand_r) = Inr ac'"
      "shape ac' = shape (actions_arr out)" "wf_ndarray ac'"
      "column ac' ri = get_window (actions_arr arrs) rand_h horizon rand_r"
      "\<forall>c. c \<noteq> ri \<longrightarrow> column ac' c = column (actions_arr out) c"
    using hn n o w ri by (auto simp: get_window_length)
  from set_column_fits [of "get_window (rewards_arr arrs) rand_h horizon rand_r"
      "rewards_arr out" ri]
  obtain rw' where rw': "set_column (rewards_arr out) ri
        (get_window (rewards_arr arrs) rand_h horizon rand_r) = Inr rw'"
      "shape rw' = shape (rewards_arr out)" "wf_ndarray rw'"
      "column rw' ri = get_window (rewards_arr arrs) rand_h horizon rand_r"
      "\<forall>c. c \<noteq> ri \<longrightarrow> column rw' c = column (rewards_arr out) c"
    using hn n o w ri by (auto simp: get_window_length)
  from set_column_fits [of "get_window (dones_arr arrs) rand_h horizon rand_r"
      "dones_arr out" ri]
  obtain dn' where dn': "set_column (dones_arr out) ri
        (get_window (dones_arr arrs) rand_h horizon rand_r) = Inr dn'"
      "shape dn' = shape (dones_arr out)" "wf_ndarray dn'"
      "column dn' ri = get_window (dones_arr arrs) rand_h horizon rand_r"
      "\<forall>c. c \<noteq> ri \<longrightarrow> column dn' c = column (dones_arr out) c"
    using hn n o w ri by (auto simp: get_window_length)
  have out': "out' = \<lparr>states_arr = st', actions_arr = ac', rewards_arr = rw', dones_arr = dn'\<rparr>"
    using b by (simp add: sample_body_def bind_err_def da ds st'(1) ac'(1) rw'(1) dn'(1))
  have "arrays_shaped horizon rollouts out'"
    using os st'(2) ac'(2) rw'(2) dn'(2) by (simp add: out' arrays_shaped_def)
  moreover have "arrays_wf out'"
    using st'(3) ac'(3) rw'(3) dn'(3) by (simp add: out' arrays_wf_def)
  moreover have "window_at out' ri arrs rand_h horizon rand_r"
    using st'(4) ac'(4) rw'(4) dn'(4) by (simp add: out' window_at_def)
  moreover have "\<forall>c. c \<noteq> ri \<longrightarrow> columns_eq out' out c"
    using st'(5) ac'(5) rw'(5) dn'(5) by (simp add: out' columns_eq_def)
  ultimately show ?thesis
    using da ds by blast
qed

lemma columns_eq_trans:
  "columns_eq a b c \<Longrightarrow> columns_eq b d c \<Longrightarrow> columns_eq a d c"
  by (simp add: columns_eq_def)

lemma window_at_columns_eq:
  "columns_eq out' mid ri \<Longrightarrow> window_at mid ri arrs rand_h horizon rand_r
     \<Longrightarrow> window_at out' ri arrs rand_h horizon rand_r"
  by (simp add: columns_eq_def window_at_def)

lemma sample_loop_keeps:
  assumes "arrays_shaped n actors arrs" and "valid_range buf \<le> n"
      and "arrays_shaped horizon rollouts out" and "arrays_wf out"
      and "\<forall>ri \<in> set ris. ri < rollouts"
      and "sample_loop buf arrs rnd horizon ris out = Inr out'"
  shows "arrays_shaped horizon rollouts out' \<and> arrays_wf out'
       \<and> (\<forall>c. c \<notin> set ris \<longrightarrow> columns_eq out' out c)"
  using assms(3-6)
proof (induction ris arbitrary: out)
  case Nil
  then show ?case by (simp add: columns_eq_def)
next
  case (Cons r rs)
  from Cons.prems(4) obtain mid where
    b: "sample_body buf arrs rnd horizon r out = Inr mid"
    and l: "sample_loop buf arrs rnd horizon rs mid = Inr out'"
    by (cases "sample_body buf arrs rnd horizon r out") (simp_all add: bind_err_def)
  have r: "r < rollouts" using Cons.prems(3) by simp
  from sample_body_result [OF assms(1,2) Cons.prems(1,2) r b]
  have m: "arrays_shaped horizon rollouts mid" "arrays_wf mid"
    "\<forall>c. c \<noteq> r \<longrightarrow> columns_eq mid out c"
    by blast+
  have rs: "\<forall>ri \<in> set rs. ri < rollouts" using Cons.prems(3) by simp
  from Cons.IH [OF m(1,2) rs l]
  have o: "arrays_shaped horizon rollouts out'" "arrays_wf out'"
    "\<forall>c. c \<notin> set rs \<longrightarrow> columns_eq out' mid c"
    by blast+
  have "columns_eq out' out c" if "c \<notin> set (r # rs)" for c
    using that o(3) m(3) by (auto intro: columns_eq_trans)
  with o(1,2) show ?case by blast
qed

lemma sample_loop_columns:
  assumes "arrays_shaped n actors arrs" and "valid_range buf \<le> n"
      and "arrays_shaped horizon rollouts out" and "arrays_wf out"
      and "\<forall>ri \<in> set ris. ri < rollouts" and "distinct ris"
      and "sample_loop buf arrs rnd horizon ris out = Inr out'"
      and "ri \<in> set ris"
  shows "\<exists>rand_r rand_h. draw_actor arrs rnd ri = Inr rand_r
           \<and> draw_start buf rnd horizon ri = Inr rand_h
           \<and> window_at out' ri arrs rand_h horizon rand_r"
  using assms(3-8)
proof (induction ris arbitrary: out)
  case Nil
  then show ?case by simp
next
  case (Cons r rs)
  from Cons.prems(5) obtain mid where
    b: "sample_body buf arrs rnd horizon r out = Inr mid"
    and l: "sample_loop buf arrs rnd horizon rs mid = Inr out'"
    by (cases "sample_body buf arrs rnd horizon r out") (simp_all add: bind_err_def)
  have r: "r < rollouts" using Cons.prems(3) by simp
  from sample_body_result [OF assms(1,2) Cons.prems(1,2) r b]
  obtain rand_r rand_h where
    d: "draw_actor arrs rnd r = Inr rand_r" "draw_start buf rnd horizon r = Inr rand_h"
    and m: "arrays_shaped horizon rollouts mid" "arrays_wf mid"
    and w: "window_at mid r arrs rand_h horizon rand_r"
    by blast
  have rs: "\<forall>ri \<in> set rs. ri < rollouts" using Cons.prems(3) by simp
  have dist: "distinct rs" "r \<notin> set rs" using Cons.prems(4) by simp_all
  show ?case
  proof (cases "ri = r")
    case True
    from sample_loop_keeps [OF assms(1,2) m rs l] dist(2)
    have "columns_eq out' mid r" by blast
    then have "window_at out' r arrs rand_h horizon rand_r"
      using w by (rule window_at_columns_eq)
    with d True show ?thesis by blast
  next
    case False
    with Cons.prems(6) have "ri \<in> set rs" by simp
    from Cons.IH [OF m rs dist(1) l this] show ?thesis .
  qed
qed

text \<open>
  Claim C5. Take a buffer built by pushes and a call \<^verbatim>\<open>sample(rollouts, horizon)\<close> that
  returns. For every rollout \<open>ri\<close> the call drew an actor below the actor count (and every
  actor below the count can be drawn) and a start time below the valid range minus the
  horizon (and every such start can be drawn), the valid range being the capacity if
  \<^verbatim>\<open>full_loop\<close> and the write index otherwise. The window lies within the capacity, and
  without a wrap it ends at or before the write index. Column \<open>ri\<close> of each output array
  is that window of the stored array, and all its cells are cells that were pushed.
\<close>

theorem sample_windows_written:
  assumes "reachable cap hist buf"
      and "fst (sample buf rnd rollouts horizon) = Inr out"
      and "ri < rollouts"
  shows "\<exists>arrs rand_r rand_h.
           storage buf = Some arrs
           \<and> draw_actor arrs rnd ri = Inr rand_r
           \<and> rand_r < shape1 (states_arr arrs)
           \<and> (\<forall>a < shape1 (states_arr arrs). draw_actor arrs (\<lambda>k. a) ri = Inr a)
           \<and> draw_start buf rnd horizon ri = Inr rand_h
           \<and> int rand_h < int (valid_range buf) - int horizon
           \<and> (\<forall>h. int h < int (valid_range buf) - int horizon
                 \<longrightarrow> draw_start buf (\<lambda>k. h) horizon ri = Inr h)
           \<and> (\<not> full_loop buf \<longrightarrow> rand_h + horizon \<le> index buf)
           \<and> rand_h + horizon \<le> capacity buf
           \<and> window_at out ri arrs rand_h horizon rand_r
           \<and> set (column (states_arr out) ri) \<subseteq> pushed_states hist
           \<and> set (column (actions_arr out) ri) \<subseteq> pushed_actions hist
           \<and> set (column (rewards_arr out) ri) \<subseteq> pushed_rewards hist
           \<and> set (column (dones_arr out) ri) \<subseteq> pushed_dones hist"
proof -
  from assms(2) obtain arrs where s: "storage buf = Some arrs"
    by (cases "storage buf") (simp_all add: sample_def)
  let ?zero = "\<lparr>states_arr = zeros horizon rollouts, actions_arr = zeros horizon rollouts,
                rewards_arr = zeros horizon rollouts, dones_arr = zeros horizon rollouts\<rparr>
                :: ('a, 'b, 'c, 'd) arrays"
  have l: "sample_loop buf arrs rnd horizon [0..<rollouts] ?zero = Inr out"
    using assms(2) s by (simp add: sample_def)
  have inv: "buffer_inv cap hist buf"
    using assms(1) by (rule reachable_inv)
  from inv s obtain actors where sh: "arrays_shaped cap actors arrs"
    and wf: "arrays_wf arrs" and w: "arrays_within (valid_range buf) hist arrs"
    by (auto simp: buffer_inv_def)
  have c: "capacity buf = cap" and i: "\<not> full_loop buf \<Longrightarrow> index buf \<le> cap"
    using inv by (simp_all add: buffer_inv_def)
  have v: "valid_range buf \<le> cap"
    using c i by (auto simp: valid_range_def)
  have ris: "\<forall>ri \<in> set [0..<rollouts]. ri < rollouts" "distinct [0..<rollouts]"
    "ri \<in> set [0..<rollouts]"
    using assms(3) by simp_all
  from sample_loop_columns [OF sh v arrays_shaped_zeros arrays_wf_zeros ris(1,2) l ris(3)]
  obtain rand_r rand_h where
    da: "draw_actor arrs rnd ri = Inr rand_r"
    and ds: "draw_start buf rnd horizon ri = Inr rand_h"
    and win: "window_at out ri arrs rand_h horizon rand_r"
    by blast
  have a1: "shape1 (states_arr arrs) = actors" "shape1 (actions_arr arrs) = actors"
           "shape1 (rewards_arr arrs) = actors" "shape1 (dones_arr arrs) = actors"
           "shape0 (states_arr arrs) = cap" "shape0 (actions_arr arrs) = cap"
           "shape0 (rewards_arr arrs) = cap" "shape0 (dones_arr arrs) = cap"
    using sh by (simp_all add: arrays_shaped_def shape_def)
  have r: "rand_r < actors"
    using randint_result(2) [OF da [unfolded draw_actor_def]] a1 by simp
  have h: "int rand_h < int (valid_range buf) - int horizon"
    using randint_result(2) [OF ds [unfolded draw_start_def]] .
  then have hv: "rand_h + horizon \<le> valid_range buf" by linarith
  have every_actor: "\<forall>a < shape1 (states_arr arrs). draw_actor arrs (\<lambda>k. a) ri = Inr a"
    by (simp add: draw_actor_def randint_def)
  have every_start: "\<forall>h. int h < int (valid_range buf) - int horizon
                 \<longrightarrow> draw_start buf (\<lambda>k. h) horizon ri = Inr h"
    by (auto simp: draw_start_def randint_def)
  have wfs: "wf_ndarray (states_arr arrs)" "wf_ndarray (actions_arr arrs)"
            "wf_ndarray (rewards_arr arrs)" "wf_ndarray (dones_arr arrs)"
    using wf by (simp_all add: arrays_wf_def)
  have ws: "rows_within (valid_range buf) (pushed_states hist) (states_arr arrs)"
           "rows_within (valid_range buf) (pushed_actions hist) (actions_arr arrs)"
           "rows_within (valid_range buf) (pushed_rewards hist) (rewards_arr arrs)"
           "rows_within (valid_range buf) (pushed_dones hist) (dones_arr arrs)"
    using w by (simp_all add: arrays_within_def)
  have p1: "set (column (states_arr out) ri) \<subseteq> pushed_states hist"
    using get_window_within [OF hv _ _ wfs(1) ws(1), of rand_r] v r a1 win
    by (simp add: window_at_def)
  have p2: "set (column (actions_arr out) ri) \<subseteq> pushed_actions hist"
    using get_window_within [OF hv _ _ wfs(2) ws(2), of rand_r] v r a1 win
    by (simp add: window_at_def)
  have p3: "set (column (rewards_arr out) ri) \<subseteq> pushed_rewards hist"
    using get_window_within [OF hv _ _ wfs(3) ws(3), of rand_r] v r a1 win
    by (simp add: window_at_def)
  have p4: "set (column (dones_arr out) ri) \<subseteq> pushed_dones hist"
    using get_window_within [OF hv _ _ wfs(4) ws(4), of rand_r] v r a1 win
    by (simp add: window_at_def)
  have nf: "\<not> full_loop buf \<longrightarrow> rand_h + horizon \<le> index buf"
    using hv by (auto simp: valid_range_def)
  have hc: "rand_h + horizon \<le> capacity buf"
    using hv v c by simp
  show ?thesis
    using s da r a1(1) every_actor ds h every_start nf hc win p1 p2 p3 p4 by blast
qed

theorem sample_windows_written_witness:
  "reachable 4 [(rollout_a, rollout_a, rollout_a, rollout_a)] buffer_a
   \<and> fst (sample buffer_a (\<lambda>k. k) 2 1) = Inr window_a
   \<and> (0::nat) < 2
   \<and> (\<exists>arrs rand_r rand_h.
         storage buffer_a = Some arrs
         \<and> draw_actor arrs (\<lambda>k. k) 0 = Inr rand_r
         \<and> draw_start buffer_a (\<lambda>k. k) 1 0 = Inr rand_h
         \<and> rand_h + 1 \<le> index buffer_a
         \<and> window_at window_a 0 arrs rand_h 1 rand_r
         \<and> set (column (states_arr window_a) 0)
              \<subseteq> pushed_states [(rollout_a, rollout_a, rollout_a, rollout_a)])"
proof -
  have w: "wf_ndarray rollout_a"
    by (simp add: wf_ndarray_def rollout_a_def)
  have p: "push (ReplayBuffer_init 4) rollout_a rollout_a rollout_a rollout_a = Inr buffer_a"
    by code_simp
  have r: "reachable 4 [(rollout_a, rollout_a, rollout_a, rollout_a)] buffer_a"
    using reachable_push [OF reachable_init w w w w p] by simp
  have s: "fst (sample buffer_a (\<lambda>k. k) 2 1) = Inr window_a"
    by code_simp
  have f: "\<not> full_loop buffer_a"
    by (simp add: buffer_a_def)
  have "(0::nat) < 2" by simp
  from sample_windows_written [OF r s this] f r s show ?thesis
    by auto
qed

end
